theory Spec2Isabelle
  imports Complex_Main "HOL-Library.AList" "HOL-Library.Sublist"
begin

section \<open>Python values shared by the modules\<close>

text \<open>
  An exception value is an instance of a subclass of Python's \<open>Exception\<close>: its class
  name and its \<open>str(e)\<close>. Every \<open>except Exception\<close> of the source catches all of them.
  Interpreter-level signals that are not derived from \<open>Exception\<close> (KeyboardInterrupt,
  SystemExit) are not values of this type.

  Times (\<open>time.time()\<close>, \<open>datetime.utcnow()\<close>) and the \<open>float\<close> fields are real
  numbers of seconds: floating-point rounding is not modelled.
\<close>

datatype exn = Exn (exc_class: string) (exc_str: string)

definition TypeError_sub_None :: exn where
  \<comment> \<open>\<open>time.time() - None\<close>; the message is CPython's, without its quotation marks\<close>
  "TypeError_sub_None =
     Exn ''TypeError'' ''unsupported operand type(s) for -: float and NoneType''"

section \<open>app/core/retry.py: CircuitBreaker\<close>

datatype CircuitState = CLOSED | OPEN | HALF_OPEN

record CircuitBreaker =
  failure_threshold :: int
  recovery_timeout :: real
  state :: CircuitState
  failure_count :: int
  last_failure_time :: "real option"
  success_count :: int

definition new_CircuitBreaker :: CircuitBreaker where
  \<comment> \<open>\<open>CircuitBreaker()\<close> with the default arguments of \<open>__init__\<close>\<close>
  "new_CircuitBreaker =
     \<lparr>failure_threshold = 5, recovery_timeout = 60, state = CLOSED,
      failure_count = 0, last_failure_time = None, success_count = 0\<rparr>"

definition can_execute :: "real \<Rightarrow> CircuitBreaker \<Rightarrow> exn + bool \<times> CircuitBreaker" where
  \<comment> \<open>the first argument is the value of \<open>time.time()\<close> read by the call\<close>
  "can_execute now cb =
     (if state cb = CLOSED then Inr (True, cb)
      else if state cb = OPEN then
        (case last_failure_time cb of
           None \<Rightarrow> Inl TypeError_sub_None
         | Some t \<Rightarrow>
             if now - t > recovery_timeout cb
             then Inr (True, cb\<lparr>state := HALF_OPEN\<rparr>)
             else Inr (False, cb))
      else if state cb = HALF_OPEN then Inr (True, cb)
      else Inr (False, cb))"

definition on_success :: "CircuitBreaker \<Rightarrow> CircuitBreaker" where
  "on_success cb =
     (if state cb = HALF_OPEN then
        (let cb1 = cb\<lparr>success_count := success_count cb + 1\<rparr>
         in if success_count cb1 \<ge> 2
            then cb1\<lparr>state := CLOSED, failure_count := 0, success_count := 0\<rparr>
            else cb1)
      else cb)"

definition on_failure :: "real \<Rightarrow> CircuitBreaker \<Rightarrow> CircuitBreaker" where
  \<comment> \<open>the first argument is the value of \<open>time.time()\<close> read by the call\<close>
  "on_failure now cb =
     (let cb1 = cb\<lparr>failure_count := failure_count cb + 1, last_failure_time := Some now\<rparr>
      in if state cb1 = CLOSED \<and> failure_count cb1 \<ge> failure_threshold cb1
         then cb1\<lparr>state := OPEN\<rparr>
         else if state cb1 = HALF_OPEN then cb1\<lparr>state := OPEN\<rparr>
         else cb1)"

definition reset_circuit_breaker :: "CircuitBreaker \<Rightarrow> CircuitBreaker" where
  \<comment> \<open>the body of \<open>reset_circuit_breaker\<close> for a registered service\<close>
  "reset_circuit_breaker cb =
     cb\<lparr>state := CLOSED, failure_count := 0, success_count := 0, last_failure_time := None\<rparr>"

text \<open>
  A sequence of calls made on one breaker, in order. The run collects what each
  \<open>can_execute\<close> returned and stops at the first exception.
\<close>

datatype breaker_call = CanExecute real | OnSuccess | OnFailure real

fun breaker_calls :: "breaker_call list \<Rightarrow> CircuitBreaker \<Rightarrow> exn + bool list \<times> CircuitBreaker" where
  "breaker_calls [] cb = Inr ([], cb)"
| "breaker_calls (CanExecute now # cs) cb =
     (case can_execute now cb of
        Inl e \<Rightarrow> Inl e
      | Inr (r, cb') \<Rightarrow>
          (case breaker_calls cs cb' of
             Inl e \<Rightarrow> Inl e
           | Inr (rs, cb'') \<Rightarrow> Inr (r # rs, cb'')))"
| "breaker_calls (OnSuccess # cs) cb = breaker_calls cs (on_success cb)"
| "breaker_calls (OnFailure now # cs) cb = breaker_calls cs (on_failure now cb)"

text \<open>
  The breaker after a sequence of outcomes of the guarded operation, each reported to
  the breaker as the wrapper does: \<open>None\<close> is a success (\<open>on_success\<close>), \<open>Some t\<close> a
  failure at time \<open>t\<close> (\<open>on_failure\<close>). And the times of the failures among them.
\<close>

definition outcomes :: "real option list \<Rightarrow> CircuitBreaker \<Rightarrow> CircuitBreaker" where
  "outcomes evs cb =
     fold (\<lambda>x b. case x of None \<Rightarrow> on_success b | Some t \<Rightarrow> on_failure t b) evs cb"

definition failure_times :: "real option list \<Rightarrow> real list" where
  "failure_times evs = concat (map (\<lambda>x. case x of None \<Rightarrow> [] | Some t \<Rightarrow> [t]) evs)"

section \<open>app/core/retry.py: RetryManager and the retry wrapper\<close>

datatype RetryStrategy = FIXED | EXPONENTIAL | LINEAR

record RetryConfig =
  max_retries :: int
  base_delay :: real
  max_delay :: real
  strategy :: RetryStrategy
  jitter :: bool
  backoff_factor :: real

definition new_RetryConfig :: RetryConfig where
  \<comment> \<open>\<open>RetryConfig()\<close>: \<open>settings.MAX_RETRIES\<close> and \<open>settings.RETRY_DELAY\<close> at their
      defaults in config.py, 3 and 1.0\<close>
  "new_RetryConfig =
     \<lparr>max_retries = 3, base_delay = 1, max_delay = 60, strategy = EXPONENTIAL,
      jitter = True, backoff_factor = 2\<rparr>"

definition ZeroDivisionError_pow :: exn where
  "ZeroDivisionError_pow =
     Exn ''ZeroDivisionError'' ''0.0 cannot be raised to a negative power''"

definition TypeError_raise_None :: exn where
  \<comment> \<open>\<open>raise None\<close>\<close>
  "TypeError_raise_None = Exn ''TypeError'' ''exceptions must derive from BaseException''"

definition float_pow :: "real \<Rightarrow> int \<Rightarrow> exn + real" where
  \<comment> \<open>\<open>x ** n\<close> for a float \<open>x\<close> and an int \<open>n\<close>\<close>
  "float_pow x n =
     (if 0 \<le> n then Inr (x ^ nat n)
      else if x = 0 then Inl ZeroDivisionError_pow
      else Inr (1 / x ^ nat (- n)))"

definition random_uniform :: "real \<Rightarrow> real \<Rightarrow> real \<Rightarrow> real" where
  \<comment> \<open>\<open>random.uniform(a, b)\<close> is \<open>a + (b - a) * random()\<close>; the first argument is the
      value of \<open>random()\<close>, a number in [0, 1)\<close>
  "random_uniform u a b = a + (b - a) * u"

definition calculate_delay :: "real \<Rightarrow> int \<Rightarrow> RetryConfig \<Rightarrow> exn + real" where
  \<comment> \<open>the first argument is the value of \<open>random()\<close> that the jitter draws\<close>
  "calculate_delay u attempt config =
     (case (if strategy config = FIXED then Inr (base_delay config)
            else if strategy config = LINEAR then Inr (base_delay config * of_int attempt)
            else (case float_pow (backoff_factor config) (attempt - 1) of
                    Inl e \<Rightarrow> Inl e
                  | Inr p \<Rightarrow> Inr (base_delay config * p))) of
        Inl e \<Rightarrow> Inl e
      | Inr delay \<Rightarrow>
          (let delay' = (if jitter config
                         then delay + random_uniform u 0 (0.1 * delay)
                         else delay)
           in Inr (min delay' (max_delay config))))"

text \<open>
  The delay as the specification words it, to compare with \<open>calculate_delay\<close>: the base
  delay is clamped to \<open>max_delay\<close> first, and the jitter, drawn from [0, 0.1 * delay],
  is added to the clamped value.
\<close>

definition calculate_delay_as_specified :: "real \<Rightarrow> int \<Rightarrow> RetryConfig \<Rightarrow> exn + real" where
  "calculate_delay_as_specified u attempt config =
     (case (if strategy config = FIXED then Inr (base_delay config)
            else if strategy config = LINEAR then Inr (base_delay config * of_int attempt)
            else (case float_pow (backoff_factor config) (attempt - 1) of
                    Inl e \<Rightarrow> Inl e
                  | Inr p \<Rightarrow> Inr (base_delay config * p))) of
        Inl e \<Rightarrow> Inl e
      | Inr delay \<Rightarrow>
          (let clamped = min delay (max_delay config)
           in Inr (if jitter config
                   then clamped + random_uniform u 0 (0.1 * clamped)
                   else clamped)))"

record RetryManager =
  circuit_breakers :: "(string \<times> CircuitBreaker) list"
  retry_configs :: "(string \<times> RetryConfig) list"

definition get_circuit_breaker :: "string \<Rightarrow> RetryManager \<Rightarrow> CircuitBreaker \<times> RetryManager" where
  "get_circuit_breaker service_name rm =
     (case map_of (circuit_breakers rm) service_name of
        Some cb \<Rightarrow> (cb, rm)
      | None \<Rightarrow>
          (new_CircuitBreaker,
           rm\<lparr>circuit_breakers :=
                 AList.update service_name new_CircuitBreaker (circuit_breakers rm)\<rparr>))"

definition get_retry_config :: "string \<Rightarrow> RetryManager \<Rightarrow> RetryConfig \<times> RetryManager" where
  "get_retry_config service_name rm =
     (case map_of (retry_configs rm) service_name of
        Some config \<Rightarrow> (config, rm)
      | None \<Rightarrow>
          (new_RetryConfig,
           rm\<lparr>retry_configs := AList.update service_name new_RetryConfig (retry_configs rm)\<rparr>))"

text \<open>
  The arguments of the decorator \<open>retry_with_circuit_breaker\<close>. The tuple \<open>exceptions\<close>
  is the set of exceptions that \<open>except exceptions\<close> catches; the default
  \<open>(Exception,)\<close> is \<open>\<lambda>e. True\<close>.
\<close>

record decorator_args =
  service_name :: string
  arg_max_retries :: "int option"
  arg_base_delay :: "real option"
  arg_strategy :: "RetryStrategy option"
  exceptions :: "exn \<Rightarrow> bool"

text \<open>
  What one call of the wrapped function meets: what the decorated function does at its
  \<open>k\<close>-th invocation (it returns a value or raises), the clock read by \<open>can_execute\<close>
  at entry and by \<open>on_failure\<close> after the \<open>k\<close>-th attempt, and the value of
  \<open>random()\<close> drawn after the \<open>k\<close>-th attempt.
\<close>

record 'a call_env =
  func :: "int \<Rightarrow> exn + 'a"
  time_at_entry :: real
  time_at_failure :: "int \<Rightarrow> real"
  random_draw :: "int \<Rightarrow> real"

text \<open>
  The \<open>for attempt in range(1, config.max_retries + 2)\<close> loop of \<open>async_wrapper\<close>, over
  the attempts still to make. It returns what the wrapper returns or raises, the
  breaker, the attempts at which the function was invoked, and the delays slept.
\<close>

fun attempt_loop ::
  "decorator_args \<Rightarrow> 'a call_env \<Rightarrow> RetryConfig \<Rightarrow> int list \<Rightarrow> exn option \<Rightarrow> CircuitBreaker \<Rightarrow>
   (exn + 'a) \<times> CircuitBreaker \<times> int list \<times> real list" where
  "attempt_loop d env config [] last_exception cb =
     (Inl (case last_exception of None \<Rightarrow> TypeError_raise_None | Some e \<Rightarrow> e), cb, [], [])"
| "attempt_loop d env config (attempt # rest) last_exception cb =
     (case func env attempt of
        Inr result \<Rightarrow> (Inr result, on_success cb, [attempt], [])
      | Inl e \<Rightarrow>
          if exceptions d e then
            (let cb1 = on_failure (time_at_failure env attempt) cb
             in if attempt \<le> max_retries config then
                  (case calculate_delay (random_draw env attempt) attempt config of
                     Inl e' \<Rightarrow> (Inl e', cb1, [attempt], [])
                   | Inr delay \<Rightarrow>
                       (case attempt_loop d env config rest (Some e) cb1 of
                          (r, cb2, invoked, slept) \<Rightarrow> (r, cb2, attempt # invoked, delay # slept)))
                else (Inl e, cb1, [attempt], []))
          else (Inl e, cb, [attempt], []))"

definition apply_overrides :: "decorator_args \<Rightarrow> RetryConfig \<Rightarrow> RetryConfig" where
  "apply_overrides d config =
     (let c1 = (case arg_max_retries d of None \<Rightarrow> config | Some n \<Rightarrow> config\<lparr>max_retries := n\<rparr>);
          c2 = (case arg_base_delay d of None \<Rightarrow> c1 | Some b \<Rightarrow> c1\<lparr>base_delay := b\<rparr>);
          c3 = (case arg_strategy d of None \<Rightarrow> c2 | Some s \<Rightarrow> c2\<lparr>strategy := s\<rparr>)
      in c3)"

definition CircuitOpen :: "string \<Rightarrow> exn" where
  \<comment> \<open>\<open>Exception(f"Circuit breaker is open for {service_name}")\<close>\<close>
  "CircuitOpen nm = Exn ''Exception'' (''Circuit breaker is open for '' @ nm)"

definition async_wrapper ::
  "decorator_args \<Rightarrow> 'a call_env \<Rightarrow> RetryManager \<Rightarrow>
   (exn + 'a) \<times> RetryManager \<times> int list \<times> real list" where
  \<comment> \<open>the breaker and the configuration are objects of the registry: what the wrapper
      does to them is written back to \<open>retry_manager\<close>\<close>
  "async_wrapper d env rm =
     (let (cb, rm1) = get_circuit_breaker (service_name d) rm;
          (config0, rm2) = get_retry_config (service_name d) rm1;
          config = apply_overrides d config0;
          rm3 = rm2\<lparr>retry_configs := AList.update (service_name d) config (retry_configs rm2)\<rparr>;
          put = (\<lambda>b. rm3\<lparr>circuit_breakers :=
                            AList.update (service_name d) b (circuit_breakers rm3)\<rparr>)
      in case can_execute (time_at_entry env) cb of
           Inl e \<Rightarrow> (Inl e, rm3, [], [])
         | Inr (ok, cb1) \<Rightarrow>
             if \<not> ok then (Inl (CircuitOpen (service_name d)), put cb1, [], [])
             else (case attempt_loop d env config [1 .. max_retries config + 1] None cb1 of
                     (r, cb2, invoked, slept) \<Rightarrow> (r, put cb2, invoked, slept)))"

definition new_RetryManager :: RetryManager where
  \<comment> \<open>\<open>RetryManager()\<close>\<close>
  "new_RetryManager = \<lparr>circuit_breakers = [], retry_configs = []\<rparr>"

text \<open>The predefined decorators.\<close>

definition retry_ai_service :: decorator_args where
  "retry_ai_service =
     \<lparr>service_name = ''ai_service'', arg_max_retries = Some 3, arg_base_delay = Some 1,
      arg_strategy = Some EXPONENTIAL, exceptions = (\<lambda>e. True)\<rparr>"

definition retry_external_api :: decorator_args where
  "retry_external_api =
     \<lparr>service_name = ''external_api'', arg_max_retries = Some 2, arg_base_delay = Some 2,
      arg_strategy = Some EXPONENTIAL, exceptions = (\<lambda>e. True)\<rparr>"

definition retry_database :: decorator_args where
  "retry_database =
     \<lparr>service_name = ''database'', arg_max_retries = Some 3, arg_base_delay = Some (1 / 2),
      arg_strategy = Some LINEAR, exceptions = (\<lambda>e. True)\<rparr>"

section \<open>app/core/cache.py: CacheManager\<close>

text \<open>
  \<open>_init_redis\<close> always sets \<open>use_redis = False\<close>, so every method runs its in-memory
  branch, which is what is modelled. \<open>memory_cache\<close> is a dict from the key to the dict
  \<open>{'value': ..., 'expires_at': ...}\<close>: an association list in insertion order, whose
  keys are distinct. The argument \<open>now\<close> of a method is the value of
  \<open>datetime.utcnow()\<close> that the call reads, in seconds.
\<close>

record 'v cache_entry =
  entry_value :: 'v
  expires_at :: real

type_synonym 'v memory_cache = "(string \<times> 'v cache_entry) list"

definition expire_or_3600 :: "int option \<Rightarrow> int" where
  \<comment> \<open>\<open>expire or 3600\<close>: None and 0 are both falsy\<close>
  "expire_or_3600 expire = (case expire of None \<Rightarrow> 3600 | Some n \<Rightarrow> if n = 0 then 3600 else n)"

definition cache_set :: "string \<Rightarrow> 'v \<Rightarrow> int option \<Rightarrow> real \<Rightarrow> 'v memory_cache \<Rightarrow> bool \<times> 'v memory_cache" where
  "cache_set key v expire now mc =
     (True,
      AList.update key \<lparr>entry_value = v, expires_at = now + of_int (expire_or_3600 expire)\<rparr> mc)"

definition cache_get :: "string \<Rightarrow> real \<Rightarrow> 'v memory_cache \<Rightarrow> 'v option \<times> 'v memory_cache" where
  "cache_get key now mc =
     (case map_of mc key of
        Some cache_entry \<Rightarrow>
          if expires_at cache_entry > now then (Some (entry_value cache_entry), mc)
          else (None, AList.delete key mc)
      | None \<Rightarrow> (None, mc))"

definition cache_delete :: "string \<Rightarrow> 'v memory_cache \<Rightarrow> bool \<times> 'v memory_cache" where
  "cache_delete key mc =
     (if key \<in> fst ` set mc then (True, AList.delete key mc) else (False, mc))"

definition cache_exists :: "string \<Rightarrow> real \<Rightarrow> 'v memory_cache \<Rightarrow> bool option \<times> 'v memory_cache" where
  \<comment> \<open>\<open>cache_entry and cache_entry['expires_at'] > now\<close>: Python's None for a missing
      key, a bool otherwise; the method assigns nothing, the cache it leaves is \<open>mc\<close>\<close>
  "cache_exists key now mc =
     (case map_of mc key of
        None \<Rightarrow> (None, mc)
      | Some cache_entry \<Rightarrow> (Some (expires_at cache_entry > now), mc))"

definition cache_expire :: "string \<Rightarrow> int \<Rightarrow> real \<Rightarrow> 'v memory_cache \<Rightarrow> bool \<times> 'v memory_cache" where
  "cache_expire key seconds now mc =
     (case map_of mc key of
        Some cache_entry \<Rightarrow>
          (True, AList.update key (cache_entry\<lparr>expires_at := now + of_int seconds\<rparr>) mc)
      | None \<Rightarrow> (False, mc))"

fun str_in :: "string \<Rightarrow> string \<Rightarrow> bool" where
  \<comment> \<open>Python's \<open>needle in key\<close> on strings\<close>
  "str_in needle [] = (needle = [])"
| "str_in needle (c # cs) = (prefix needle (c # cs) \<or> str_in needle cs)"

definition replace_star :: "string \<Rightarrow> string" where
  \<comment> \<open>\<open>pattern.replace('*', '')\<close>\<close>
  "replace_star pattern = filter (\<lambda>c. c \<noteq> CHR ''*'') pattern"

definition clear_pattern :: "string \<Rightarrow> 'v memory_cache \<Rightarrow> int \<times> 'v memory_cache" where
  "clear_pattern pattern mc =
     (let keys_to_delete = filter (\<lambda>key. str_in (replace_star pattern) key) (map fst mc);
          (mc', deleted_count) =
             fold (\<lambda>key (m, n). (AList.delete key m, n + 1)) keys_to_delete (mc, 0)
      in (deleted_count, mc'))"

text \<open>
  The pattern as the specification words it, to compare with \<open>replace_star\<close>: only a
  trailing wildcard marker is stripped, a \<open>*\<close> elsewhere stays.
\<close>

definition strip_trailing_star :: "string \<Rightarrow> string" where
  "strip_trailing_star pattern = rev (dropWhile (\<lambda>c. c = CHR ''*'') (rev pattern))"

definition clear_pattern_as_specified :: "string \<Rightarrow> 'v memory_cache \<Rightarrow> int \<times> 'v memory_cache" where
  "clear_pattern_as_specified pattern mc =
     (int (length (filter (\<lambda>(key, e). str_in (strip_trailing_star pattern) key) mc)),
      filter (\<lambda>(key, e). \<not> str_in (strip_trailing_star pattern) key) mc)"

record cache_stats =
  total_keys :: nat
  active_keys :: nat

definition get_stats :: "real \<Rightarrow> 'v memory_cache \<Rightarrow> cache_stats" where
  "get_stats now mc =
     \<lparr>total_keys = length mc,
      active_keys = length (filter (\<lambda>(k, v). expires_at v > now) mc)\<rparr>"

section \<open>app/core/monitoring.py: MetricsCollector\<close>

text \<open>
  The fields of \<open>MetricsCollector\<close> that \<open>record_request\<close> and the request metrics
  use. \<open>request_times\<close> is a \<open>deque(maxlen=1000)\<close>: appending to a full deque drops
  its oldest element.
\<close>

record MetricsCollector =
  request_times :: "real list"
  error_count :: int
  total_requests :: int
  last_reset :: real

definition new_MetricsCollector :: "real \<Rightarrow> MetricsCollector" where
  \<comment> \<open>\<open>__init__\<close>; the argument is the value of \<open>datetime.utcnow()\<close>\<close>
  "new_MetricsCollector now =
     \<lparr>request_times = [], error_count = 0, total_requests = 0, last_reset = now\<rparr>"

definition deque_append :: "nat \<Rightarrow> 'a list \<Rightarrow> 'a \<Rightarrow> 'a list" where
  "deque_append maxlen xs x = (let ys = xs @ [x] in drop (length ys - maxlen) ys)"

definition record_request :: "real \<Rightarrow> bool \<Rightarrow> MetricsCollector \<Rightarrow> MetricsCollector" where
  "record_request response_time is_error m =
     (let m1 = m\<lparr>request_times := deque_append 1000 (request_times m) response_time\<rparr>;
          m2 = m1\<lparr>total_requests := total_requests m1 + 1\<rparr>
      in if is_error then m2\<lparr>error_count := error_count m2 + 1\<rparr> else m2)"

definition calculate_requests_per_minute :: "real \<Rightarrow> MetricsCollector \<Rightarrow> real \<times> MetricsCollector" where
  \<comment> \<open>\<open>_calculate_requests_per_minute\<close>; the first argument is \<open>datetime.utcnow()\<close>\<close>
  "calculate_requests_per_minute now m =
     (if now - last_reset m \<ge> 60
      then (0, m\<lparr>total_requests := 0, error_count := 0, last_reset := now\<rparr>)
      else (of_int (total_requests m), m))"

definition calculate_error_rate :: "MetricsCollector \<Rightarrow> real" where
  "calculate_error_rate m =
     (if total_requests m = 0 then 0
      else (of_int (error_count m) / of_int (total_requests m)) * 100)"

text \<open>
  The requests-per-minute computation as the specification words it, to compare with
  \<open>calculate_requests_per_minute\<close>: at the end of a window the total of that window
  is reported, and only then are the counters zeroed.
\<close>

definition requests_per_minute_as_specified :: "real \<Rightarrow> MetricsCollector \<Rightarrow> real \<times> MetricsCollector" where
  "requests_per_minute_as_specified now m =
     (if now - last_reset m \<ge> 60
      then (of_int (total_requests m),
            m\<lparr>total_requests := 0, error_count := 0, last_reset := now\<rparr>)
      else (of_int (total_requests m), m))"

section \<open>app/core/monitoring.py: HealthChecker\<close>

text \<open>
  A log line of \<open>logger\<close>: its level and its message.

  A registered callable is run against the state of the machine \<open>'w\<close>: it returns a
  record or raises, and leaves the machine in a new state. \<open>utcnow\<close> reads the clock
  of the machine.
\<close>

type_synonym log_line = "string \<times> string"

record 'd ServiceHealth =
  name :: string
  status :: string
  response_time :: real
  last_check :: real
  error_message :: "string option"
  details :: "'d option"

type_synonym ('w, 'd) check_func = "'w \<Rightarrow> (exn + 'd ServiceHealth) \<times> 'w"

record ('w, 'd) HealthChecker =
  health_checks :: "(string \<times> ('w, 'd) check_func) list"
  health_status :: "(string \<times> 'd ServiceHealth) list"

definition register_health_check ::
  "string \<Rightarrow> ('w, 'd) check_func \<Rightarrow> ('w, 'd) HealthChecker \<Rightarrow> ('w, 'd) HealthChecker" where
  "register_health_check nm check_func hc =
     hc\<lparr>health_checks := AList.update nm check_func (health_checks hc)\<rparr>"

text \<open>
  The loop of \<open>run_all_checks\<close> over the checks still to run, with the \<open>results\<close>
  built so far, \<open>self.health_status\<close>, the log and the machine.
\<close>

fun run_checks ::
  "('w \<Rightarrow> real) \<Rightarrow> (string \<times> ('w, 'd) check_func) list \<Rightarrow>
   (string \<times> 'd ServiceHealth) list \<Rightarrow> (string \<times> 'd ServiceHealth) list \<Rightarrow> log_line list \<Rightarrow> 'w \<Rightarrow>
   (string \<times> 'd ServiceHealth) list \<times> (string \<times> 'd ServiceHealth) list \<times> log_line list \<times> 'w" where
  "run_checks utcnow [] results hs lg w = (results, hs, lg, w)"
| "run_checks utcnow ((nm, check_func) # rest) results hs lg w =
     (case check_func w of
        (Inr result, w') \<Rightarrow>
          run_checks utcnow rest (AList.update nm result results) (AList.update nm result hs) lg w'
      | (Inl e, w') \<Rightarrow>
          run_checks utcnow rest
            (AList.update nm
               \<lparr>name = nm, status = ''unhealthy'', response_time = 0, last_check = utcnow w',
                error_message = Some (exc_str e), details = None\<rparr> results)
            hs
            (lg @ [(''ERROR'', ''Health check '' @ nm @ '' failed: '' @ exc_str e)])
            w')"

definition run_all_checks ::
  "('w \<Rightarrow> real) \<Rightarrow> ('w, 'd) HealthChecker \<Rightarrow> 'w \<Rightarrow>
   (string \<times> 'd ServiceHealth) list \<times> ('w, 'd) HealthChecker \<times> log_line list \<times> 'w" where
  "run_all_checks utcnow hc w =
     (case run_checks utcnow (health_checks hc) [] (health_status hc) [] w of
        (results, hs, lg, w') \<Rightarrow> (results, hc\<lparr>health_status := hs\<rparr>, lg, w'))"

text \<open>
  What \<open>run_all_checks\<close> makes of the outcome of the check registered as \<open>nm\<close>: the
  record the check returned, or the unhealthy record of the \<open>except\<close> branch. And the
  records of a list of checks run one after the other, each on the machine the
  previous one left.
\<close>

definition check_record ::
  "('w \<Rightarrow> real) \<Rightarrow> string \<Rightarrow> (exn + 'd ServiceHealth) \<times> 'w \<Rightarrow> 'd ServiceHealth" where
  "check_record utcnow nm outcome =
     (case outcome of
        (Inr result, w') \<Rightarrow> result
      | (Inl e, w') \<Rightarrow>
          \<lparr>name = nm, status = ''unhealthy'', response_time = 0, last_check = utcnow w',
           error_message = Some (exc_str e), details = None\<rparr>)"

fun expected_records ::
  "('w \<Rightarrow> real) \<Rightarrow> (string \<times> ('w, 'd) check_func) list \<Rightarrow> 'w \<Rightarrow> (string \<times> 'd ServiceHealth) list" where
  "expected_records utcnow [] w = []"
| "expected_records utcnow ((nm, check_func) # rest) w =
     (nm, check_record utcnow nm (check_func w)) # expected_records utcnow rest (snd (check_func w))"

section \<open>app/core/monitoring.py: AlertManager\<close>

record SystemMetrics =
  timestamp :: real
  cpu_usage :: real
  memory_usage :: real
  disk_usage :: real
  network_io :: "(string \<times> real) list"
  active_connections :: int
  requests_per_minute :: real
  error_rate :: real
  response_time_avg :: real
  cache_hit_rate :: real

text \<open>The threshold of a rule is a float or a string.\<close>

datatype rule_value = Num real | Str string

record AlertRule =
  metric :: string
  threshold :: rule_value
  operator :: string
  severity :: string
  message :: string

text \<open>
  An alert is a dict; the keys \<open>metric\<close>, \<open>value\<close> and \<open>threshold\<close> exist in the alert
  of a metric rule only, the key \<open>service\<close> in the alert of an unhealthy service only.
\<close>

record Alert =
  alert_id :: string
  alert_rule :: string
  alert_severity :: string
  alert_message :: string
  alert_metric :: "string option"
  alert_value :: "real option"
  alert_threshold :: "rule_value option"
  alert_service :: "string option"
  alert_timestamp :: real

text \<open>
  An alert handler is run on the alert against the state of the machine \<open>'w\<close>: it
  returns (\<open>None\<close>) or raises (\<open>Some e\<close>), and leaves the machine in a new state. Its
  second argument is the history \<open>alert_manager.alerts\<close> as it stands when the handler
  is called, which the handler can read through the global instance.
\<close>

type_synonym 'w alert_handler = "Alert \<Rightarrow> Alert list \<Rightarrow> 'w \<Rightarrow> exn option \<times> 'w"

record 'w AlertManager =
  alerts :: "Alert list"
  alert_rules :: "(string \<times> AlertRule) list"
  alert_handlers :: "'w alert_handler list"

definition default_rules :: "(string \<times> AlertRule) list" where
  \<comment> \<open>\<open>setup_default_rules\<close>\<close>
  "default_rules =
     [(''high_cpu'', \<lparr>metric = ''cpu_usage'', threshold = Num 90, operator = ''>'',
          severity = ''warning'', message = ''CPU usage is above 90%''\<rparr>),
      (''high_memory'', \<lparr>metric = ''memory_usage'', threshold = Num 90, operator = ''>'',
          severity = ''warning'', message = ''Memory usage is above 90%''\<rparr>),
      (''high_disk'', \<lparr>metric = ''disk_usage'', threshold = Num 90, operator = ''>'',
          severity = ''critical'', message = ''Disk usage is above 90%''\<rparr>),
      (''high_error_rate'', \<lparr>metric = ''error_rate'', threshold = Num 10, operator = ''>'',
          severity = ''critical'', message = ''Error rate is above 10%''\<rparr>),
      (''service_unhealthy'', \<lparr>metric = ''service_status'', threshold = Str ''unhealthy'',
          operator = ''=='', severity = ''critical'', message = ''Service is unhealthy''\<rparr>)]"

definition new_AlertManager :: "'w AlertManager" where
  "new_AlertManager = \<lparr>alerts = [], alert_rules = default_rules, alert_handlers = []\<rparr>"

definition add_alert_handler :: "'w alert_handler \<Rightarrow> 'w AlertManager \<Rightarrow> 'w AlertManager" where
  "add_alert_handler handler am = am\<lparr>alert_handlers := alert_handlers am @ [handler]\<rparr>"

definition TypeError_compare :: exn where
  \<comment> \<open>an ordering comparison of a float with a str\<close>
  "TypeError_compare = Exn ''TypeError'' ''comparison not supported between float and str''"

definition evaluate_condition :: "real \<Rightarrow> string \<Rightarrow> rule_value \<Rightarrow> exn + bool" where
  \<comment> \<open>\<open>_evaluate_condition\<close>, for a float \<open>value\<close>\<close>
  "evaluate_condition v opr thr =
     (if opr = ''>'' then (case thr of Num t \<Rightarrow> Inr (v > t) | Str s \<Rightarrow> Inl TypeError_compare)
      else if opr = ''<'' then (case thr of Num t \<Rightarrow> Inr (v < t) | Str s \<Rightarrow> Inl TypeError_compare)
      else if opr = ''>='' then (case thr of Num t \<Rightarrow> Inr (v \<ge> t) | Str s \<Rightarrow> Inl TypeError_compare)
      else if opr = ''<='' then (case thr of Num t \<Rightarrow> Inr (v \<le> t) | Str s \<Rightarrow> Inl TypeError_compare)
      else if opr = ''=='' then (case thr of Num t \<Rightarrow> Inr (v = t) | Str s \<Rightarrow> Inr False)
      else if opr = ''!='' then (case thr of Num t \<Rightarrow> Inr (v \<noteq> t) | Str s \<Rightarrow> Inr True)
      else Inr False)"

definition getattr_metric :: "SystemMetrics \<Rightarrow> string \<Rightarrow> real" where
  \<comment> \<open>\<open>getattr(metrics, rule['metric'])\<close>, called for the four names of \<open>check_alerts\<close>\<close>
  "getattr_metric metrics nm =
     (if nm = ''cpu_usage'' then cpu_usage metrics
      else if nm = ''memory_usage'' then memory_usage metrics
      else if nm = ''disk_usage'' then disk_usage metrics
      else error_rate metrics)"

fun str_nat :: "nat \<Rightarrow> string" where
  "str_nat n =
     (if n < 10 then [''0123456789'' ! n]
      else str_nat (n div 10) @ [''0123456789'' ! (n mod 10)])"

definition str_int :: "int \<Rightarrow> string" where
  \<comment> \<open>\<open>str\<close> of an int\<close>
  "str_int i = (if i < 0 then CHR ''-'' # str_nat (nat (- i)) else str_nat (nat i))"

definition int_of_float :: "real \<Rightarrow> int" where
  \<comment> \<open>\<open>int\<close> of a float truncates towards zero\<close>
  "int_of_float x = (if 0 \<le> x then \<lfloor>x\<rfloor> else \<lceil>x\<rceil>)"

text \<open>
  The first loop of \<open>check_alerts\<close>, over the rules still to check. \<open>now\<close> is the value
  of \<open>time.time()\<close> and \<open>utc\<close> the value of \<open>datetime.utcnow()\<close>, read as one instant
  for the whole call.
\<close>

fun metric_alerts :: "real \<Rightarrow> real \<Rightarrow> SystemMetrics \<Rightarrow> (string \<times> AlertRule) list \<Rightarrow> exn + Alert list" where
  "metric_alerts now utc metrics [] = Inr []"
| "metric_alerts now utc metrics ((rule_name, r) # rest) =
     (if metric r \<in> set [''cpu_usage'', ''memory_usage'', ''disk_usage'', ''error_rate''] then
        (let metric_value = getattr_metric metrics (metric r)
         in case evaluate_condition metric_value (operator r) (threshold r) of
              Inl e \<Rightarrow> Inl e
            | Inr breach \<Rightarrow>
                (case metric_alerts now utc metrics rest of
                   Inl e \<Rightarrow> Inl e
                 | Inr found \<Rightarrow>
                     if breach then
                       Inr (\<lparr>alert_id = rule_name @ ''_'' @ str_int (int_of_float now),
                             alert_rule = rule_name,
                             alert_severity = severity r,
                             alert_message = message r,
                             alert_metric = Some (metric r),
                             alert_value = Some metric_value,
                             alert_threshold = Some (threshold r),
                             alert_service = None,
                             alert_timestamp = utc\<rparr> # found)
                     else Inr found))
      else metric_alerts now utc metrics rest)"

definition service_alert :: "real \<Rightarrow> real \<Rightarrow> string \<Rightarrow> 'd ServiceHealth \<Rightarrow> Alert" where
  "service_alert now utc svc health =
     \<lparr>alert_id = ''service_'' @ svc @ ''_'' @ str_int (int_of_float now),
      alert_rule = ''service_unhealthy'',
      alert_severity = ''critical'',
      alert_message = ''Service '' @ svc @ '' is unhealthy: '' @
         (case error_message health of None \<Rightarrow> ''None'' | Some m \<Rightarrow> m),
      alert_metric = None, alert_value = None, alert_threshold = None,
      alert_service = Some svc,
      alert_timestamp = utc\<rparr>"

definition health_alerts :: "real \<Rightarrow> real \<Rightarrow> (string \<times> 'd ServiceHealth) list \<Rightarrow> Alert list" where
  \<comment> \<open>the second loop of \<open>check_alerts\<close>\<close>
  "health_alerts now utc hs =
     map (\<lambda>(svc, health). service_alert now utc svc health)
       (filter (\<lambda>(svc, health). status health = ''unhealthy'') hs)"

text \<open>The loop of \<open>_process_alert\<close> over the handlers still to call.\<close>

fun call_handlers ::
  "'w alert_handler list \<Rightarrow> Alert \<Rightarrow> Alert list \<Rightarrow> log_line list \<Rightarrow> 'w \<Rightarrow> log_line list \<times> 'w" where
  "call_handlers [] alert history lg w = (lg, w)"
| "call_handlers (handler # rest) alert history lg w =
     (case handler alert history w of
        (None, w') \<Rightarrow> call_handlers rest alert history lg w'
      | (Some e, w') \<Rightarrow>
          call_handlers rest alert history
            (lg @ [(''ERROR'', ''Alert handler failed: '' @ exc_str e)]) w')"

definition process_alert ::
  "Alert \<Rightarrow> 'w AlertManager \<times> log_line list \<times> 'w \<Rightarrow> 'w AlertManager \<times> log_line list \<times> 'w" where
  \<comment> \<open>\<open>_process_alert\<close>\<close>
  "process_alert alert s =
     (case s of (am, lg, w) \<Rightarrow>
        (let am1 = am\<lparr>alerts := alerts am @ [alert]\<rparr>;
             (lg1, w1) = call_handlers (alert_handlers am1) alert (alerts am1) lg w
         in (am1,
             lg1 @ [(''WARNING'', ''Alert triggered: '' @ alert_message alert @
                       '' (Severity: '' @ alert_severity alert @ '')'')],
             w1)))"

definition check_alerts ::
  "real \<Rightarrow> real \<Rightarrow> SystemMetrics \<Rightarrow> (string \<times> 'd ServiceHealth) list \<Rightarrow> 'w AlertManager \<Rightarrow> 'w \<Rightarrow>
   exn + 'w AlertManager \<times> log_line list \<times> 'w" where
  "check_alerts now utc metrics hs am w =
     (case metric_alerts now utc metrics (alert_rules am) of
        Inl e \<Rightarrow> Inl e
      | Inr found \<Rightarrow> Inr (fold process_alert (found @ health_alerts now utc hs) (am, [], w)))"

section \<open>CircuitBreaker: failures open the breaker, the timeout half-opens it\<close>

lemma on_failure_count [simp]: "failure_count (on_failure now cb) = failure_count cb + 1"
  by (simp add: on_failure_def Let_def)

lemma on_failure_time [simp]: "last_failure_time (on_failure now cb) = Some now"
  by (simp add: on_failure_def Let_def)

lemma on_failure_threshold [simp]: "failure_threshold (on_failure now cb) = failure_threshold cb"
  by (simp add: on_failure_def Let_def)

lemma on_failure_timeout [simp]: "recovery_timeout (on_failure now cb) = recovery_timeout cb"
  by (simp add: on_failure_def Let_def)

lemma on_failure_success_count [simp]: "success_count (on_failure now cb) = success_count cb"
  by (simp add: on_failure_def Let_def)

lemma on_failure_state:
  "state (on_failure now cb) =
     (if state cb = CLOSED \<and> failure_count cb + 1 < failure_threshold cb then CLOSED else OPEN)"
  by (cases "state cb") (simp_all add: on_failure_def Let_def)

lemma fold_on_failure_snoc: "fold on_failure (ts @ [t]) cb = on_failure t (fold on_failure ts cb)"
  by simp

lemma failures_threshold [simp]:
  "failure_threshold (fold on_failure ts cb) = failure_threshold cb"
  by (induction ts rule: rev_induct) simp_all

lemma failures_timeout [simp]:
  "recovery_timeout (fold on_failure ts cb) = recovery_timeout cb"
  by (induction ts rule: rev_induct) simp_all

lemma failures_count: "failure_count (fold on_failure ts cb) = failure_count cb + int (length ts)"
  by (induction ts rule: rev_induct) simp_all

lemma failures_time:
  "ts \<noteq> [] \<Longrightarrow> last_failure_time (fold on_failure ts cb) = Some (last ts)"
  by (induction ts rule: rev_induct) simp_all

lemma failures_state:
  "state cb = CLOSED \<Longrightarrow>
   state (fold on_failure ts cb) =
     (if ts \<noteq> [] \<and> failure_threshold cb \<le> failure_count cb + int (length ts)
      then OPEN else CLOSED)"
proof (induction ts rule: rev_induct)
  case Nil
  then show ?case by simp
next
  case (snoc t ts)
  then show ?case
    by (auto simp: on_failure_state failures_count)
qed

lemma can_execute_open_early:
  "state cb = OPEN \<Longrightarrow> last_failure_time cb = Some t \<Longrightarrow> now - t \<le> recovery_timeout cb \<Longrightarrow>
   can_execute now cb = Inr (False, cb)"
  by (simp add: can_execute_def)

lemma can_execute_open_late:
  "state cb = OPEN \<Longrightarrow> last_failure_time cb = Some t \<Longrightarrow> now - t > recovery_timeout cb \<Longrightarrow>
   can_execute now cb = Inr (True, cb\<lparr>state := HALF_OPEN\<rparr>)"
  by (simp add: can_execute_def)

lemma breaker_calls_early:
  "state cb = OPEN \<Longrightarrow> last_failure_time cb = Some t \<Longrightarrow>
   \<forall>now \<in> set early. now - t \<le> recovery_timeout cb \<Longrightarrow>
   breaker_calls (map CanExecute early @ cs) cb =
     (case breaker_calls cs cb of
        Inl e \<Rightarrow> Inl e
      | Inr (rs, cb') \<Rightarrow> Inr (replicate (length early) False @ rs, cb'))"
  by (induction early) (auto simp: can_execute_open_early split: sum.splits)

section \<open>CircuitBreaker: the half-open probation\<close>

lemma on_success_elsewhere: "state cb \<noteq> HALF_OPEN \<Longrightarrow> on_success cb = cb"
  by (simp add: on_success_def)

lemma on_success_first:
  "state cb = HALF_OPEN \<Longrightarrow> success_count cb = 0 \<Longrightarrow>
   on_success cb = cb\<lparr>success_count := 1\<rparr>"
  by (simp add: on_success_def Let_def)

lemma on_success_twice:
  "state cb = HALF_OPEN \<Longrightarrow> success_count cb = 0 \<Longrightarrow>
   on_success (on_success cb) = cb\<lparr>state := CLOSED, failure_count := 0, success_count := 0\<rparr>"
  by (simp add: on_success_def Let_def)

text \<open>
  C2. \<open>on_failure\<close> leaves \<open>success_count\<close> as it is when it reopens a HALF_OPEN
  breaker. A new breaker is opened by five failures, half-opens after the timeout,
  sees one success and then one failure, and half-opens again after the timeout: it
  starts this second probation with \<open>success_count = 1\<close>, and a single success closes
  it.
\<close>

theorem half_open_failure_keeps_success_credit:
  "breaker_calls
     [OnFailure 1, OnFailure 2, OnFailure 3, OnFailure 4, OnFailure 5,
      CanExecute 100, OnSuccess, OnFailure 101, CanExecute 200]
     new_CircuitBreaker =
   Inr ([True, True],
        \<lparr>failure_threshold = 5, recovery_timeout = 60, state = HALF_OPEN,
         failure_count = 6, last_failure_time = Some 101, success_count = 1\<rparr>) \<and>
   breaker_calls
     [OnFailure 1, OnFailure 2, OnFailure 3, OnFailure 4, OnFailure 5,
      CanExecute 100, OnSuccess, OnFailure 101, CanExecute 200, OnSuccess]
     new_CircuitBreaker =
   Inr ([True, True],
        \<lparr>failure_threshold = 5, recovery_timeout = 60, state = CLOSED,
         failure_count = 0, last_failure_time = Some 101, success_count = 0\<rparr>)"
  by (simp add: new_CircuitBreaker_def on_failure_def on_success_def can_execute_def Let_def)

section \<open>CacheManager: clearing by pattern\<close>

lemma str_in_sublist: "str_in needle key \<longleftrightarrow> sublist needle key"
  by (induction key) (simp_all add: sublist_Cons_right)

lemma str_in_iff: "str_in needle key \<longleftrightarrow> (\<exists>pre suf. key = pre @ needle @ suf)"
  by (simp add: str_in_sublist sublist_def)

lemma fold_delete_keys:
  "fold (\<lambda>key (m, n). (AList.delete key m, n + 1)) ks (m0, n0) =
     (filter (\<lambda>(k, e). k \<notin> set ks) m0, n0 + int (length ks))"
proof (induction ks arbitrary: m0 n0)
  case Nil
  then show ?case by simp
next
  case (Cons k ks)
  have "filter (\<lambda>(k', e). k' \<notin> set ks) (AList.delete k m0) =
        filter (\<lambda>(k', e). k' \<notin> set (k # ks)) m0"
    by (induction m0) (auto simp: AList.delete_eq)
  with Cons show ?case by simp
qed

lemma clear_pattern_eq:
  "clear_pattern pattern mc =
     (int (length (filter (\<lambda>(k, e). str_in (replace_star pattern) k) mc)),
      filter (\<lambda>(k, e). \<not> str_in (replace_star pattern) k) mc)"
proof -
  let ?P = "\<lambda>k. str_in (replace_star pattern) k"
  let ?ks = "filter ?P (map fst mc)"
  have a: "filter (\<lambda>(k, e). k \<notin> set ?ks) mc = filter (\<lambda>(k, e). \<not> ?P k) mc"
    by (rule filter_cong) (auto simp: image_iff)
  have b: "length ?ks = length (filter (\<lambda>(k, e). ?P k) mc)"
    by (induction mc) auto
  show ?thesis
    unfolding clear_pattern_def Let_def fold_delete_keys a b by simp
qed

lemma filter_strip_trailing:
  "filter (\<lambda>c. c \<noteq> s) (rev (dropWhile (\<lambda>c. c = s) (rev p))) = filter (\<lambda>c. c \<noteq> s) p"
  by (induction p rule: rev_induct) auto

lemma replace_star_trailing:
  assumes "CHR ''*'' \<notin> set (strip_trailing_star pattern)"
  shows "replace_star pattern = strip_trailing_star pattern"
proof -
  have "replace_star pattern = filter (\<lambda>c. c \<noteq> CHR ''*'') (strip_trailing_star pattern)"
    by (simp add: replace_star_def strip_trailing_star_def filter_strip_trailing)
  also have "\<dots> = strip_trailing_star pattern"
    using assms by (auto simp: filter_id_conv)
  finally show ?thesis .
qed

text \<open>
  C6 as stated fails: for the pattern \<open>a*b\<close>, which has no trailing wildcard marker,
  \<open>clear_pattern\<close> looks for \<open>ab\<close>. It deletes the key \<open>ab\<close>, which does not
  contain the pattern, and keeps the key \<open>a*b\<close>, which does.
\<close>

theorem clear_pattern_counterexample:
  "clear_pattern ''a*b'' [(''ab'', \<lparr>entry_value = ''v'', expires_at = 10\<rparr>),
                           (''a*b'', \<lparr>entry_value = ''w'', expires_at = 10\<rparr>)] =
     (1, [(''a*b'', \<lparr>entry_value = ''w'', expires_at = 10\<rparr>)]) \<and>
   clear_pattern_as_specified ''a*b'' [(''ab'', \<lparr>entry_value = ''v'', expires_at = 10\<rparr>),
                           (''a*b'', \<lparr>entry_value = ''w'', expires_at = 10\<rparr>)] =
     (1, [(''ab'', \<lparr>entry_value = ''v'', expires_at = 10\<rparr>)])"
  by (simp add: clear_pattern_def clear_pattern_as_specified_def replace_star_def
      strip_trailing_star_def Let_def)

text \<open>
  C6 (amended). \<open>clear_pattern\<close> removes every \<open>*\<close> of the pattern, wherever it stands,
  and deletes exactly the entries whose key contains the remaining string as a
  contiguous substring; the other entries stay, in their order, and the count returned
  is the number of entries deleted. For a pattern whose only wildcard markers are
  trailing ones this is what the specification describes.
\<close>

theorem clear_pattern_deletes_substring_matches:
  "clear_pattern pattern mc =
     (int (length (filter (\<lambda>(k, e). str_in (replace_star pattern) k) mc)),
      filter (\<lambda>(k, e). \<not> str_in (replace_star pattern) k) mc) \<and>
   replace_star pattern = filter (\<lambda>c. c \<noteq> CHR ''*'') pattern \<and>
   (str_in (replace_star pattern) key \<longleftrightarrow> (\<exists>pre suf. key = pre @ replace_star pattern @ suf)) \<and>
   (CHR ''*'' \<notin> set (strip_trailing_star pattern) \<longrightarrow>
      clear_pattern pattern mc = clear_pattern_as_specified pattern mc)"
proof -
  have "clear_pattern pattern mc = clear_pattern_as_specified pattern mc"
    if "CHR ''*'' \<notin> set (strip_trailing_star pattern)"
    using replace_star_trailing [OF that]
    by (simp add: clear_pattern_eq clear_pattern_as_specified_def)
  then show ?thesis
    using clear_pattern_eq [of pattern mc] str_in_iff [of "replace_star pattern" key]
    by (simp add: replace_star_def)
qed

theorem clear_pattern_deletes_substring_matches_witness:
  "CHR ''*'' \<notin> set (strip_trailing_star ''user:*'') \<and>
   clear_pattern ''user:*''
     [(''user:profile:1'', \<lparr>entry_value = ''a'', expires_at = 10\<rparr>),
      (''session:data:1'', \<lparr>entry_value = ''b'', expires_at = 10\<rparr>),
      (''xuser:2'', \<lparr>entry_value = ''c'', expires_at = 10\<rparr>)] =
     (2, [(''session:data:1'', \<lparr>entry_value = ''b'', expires_at = 10\<rparr>)]) \<and>
   clear_pattern_as_specified ''user:*''
     [(''user:profile:1'', \<lparr>entry_value = ''a'', expires_at = 10\<rparr>),
      (''session:data:1'', \<lparr>entry_value = ''b'', expires_at = 10\<rparr>),
      (''xuser:2'', \<lparr>entry_value = ''c'', expires_at = 10\<rparr>)] =
     (2, [(''session:data:1'', \<lparr>entry_value = ''b'', expires_at = 10\<rparr>)])"
  using clear_pattern_deletes_substring_matches [of "''user:*''"
     "[(''user:profile:1'', \<lparr>entry_value = ''a'', expires_at = 10\<rparr>),
      (''session:data:1'', \<lparr>entry_value = ''b'', expires_at = 10\<rparr>),
      (''xuser:2'', \<lparr>entry_value = ''c'', expires_at = 10\<rparr>)]" "''xuser:2''"]
  by (simp add: replace_star_def strip_trailing_star_def clear_pattern_as_specified_def)

section \<open>RetryManager: the delay before a retry\<close>

text \<open>
  C4 as stated fails: for the default configuration (EXPONENTIAL, base delay 1,
  factor 2, \<open>max_delay\<close> 60, jitter on), attempt 7 and the draw 1/2, the code returns
  min (64 + 3.2) 60 = 60, while clamping first and adding the jitter after gives
  60 + 3 = 63.
\<close>

theorem calculate_delay_counterexample:
  "calculate_delay (1/2) 7 new_RetryConfig = Inr 60 \<and>
   calculate_delay_as_specified (1/2) 7 new_RetryConfig = Inr 63"
  by (simp add: calculate_delay_def calculate_delay_as_specified_def new_RetryConfig_def
      float_pow_def random_uniform_def Let_def)

lemma calculate_delay_eq:
  assumes "1 \<le> attempt"
  shows "calculate_delay u attempt config =
     (let b = (case strategy config of
                  FIXED \<Rightarrow> base_delay config
                | LINEAR \<Rightarrow> base_delay config * of_int attempt
                | EXPONENTIAL \<Rightarrow> base_delay config * backoff_factor config ^ nat (attempt - 1));
          j = (if jitter config then 0.1 * b * u else 0)
      in Inr (min (b + j) (max_delay config)))"
  using assms
  by (cases "strategy config")
     (simp_all add: calculate_delay_def float_pow_def random_uniform_def Let_def)

text \<open>
  C4 (amended). For an attempt number from 1 on and a draw \<open>u\<close> of \<open>random()\<close> in
  [0, 1], \<open>calculate_delay\<close> takes the base delay \<open>b\<close> of the strategy, adds the jitter
  \<open>0.1 * b * u\<close> (a value in [0, 0.1 * b]) to the unclamped \<open>b\<close> when jitter is on, and
  clamps the sum to \<open>max_delay\<close> last: the delay never exceeds \<open>max_delay\<close>. With
  jitter off, EXPONENTIAL with base delay 1, factor 2 and \<open>max_delay\<close> 60 gives 1, 2
  and 4 for the attempts 1, 2 and 3.
\<close>

theorem calculate_delay_jitter_then_clamp:
  assumes "1 \<le> attempt" and "0 \<le> u" and "u \<le> 1"
  shows "(let b = (case strategy config of
                  FIXED \<Rightarrow> base_delay config
                | LINEAR \<Rightarrow> base_delay config * of_int attempt
                | EXPONENTIAL \<Rightarrow> base_delay config * backoff_factor config ^ nat (attempt - 1));
              j = (if jitter config then 0.1 * b * u else 0)
          in calculate_delay u attempt config = Inr (min (b + j) (max_delay config)) \<and>
             (0 \<le> b \<longrightarrow> 0 \<le> j \<and> j \<le> 0.1 * b)) \<and>
         (\<forall>d. calculate_delay u attempt config = Inr d \<longrightarrow> d \<le> max_delay config) \<and>
         (strategy config = EXPONENTIAL \<and> \<not> jitter config \<and> base_delay config = 1 \<and>
          backoff_factor config = 2 \<and> max_delay config = 60 \<longrightarrow>
            calculate_delay u 1 config = Inr 1 \<and> calculate_delay u 2 config = Inr 2 \<and>
            calculate_delay u 3 config = Inr 4)"
proof -
  have jit: "0 \<le> 0.1 * b * u \<and> 0.1 * b * u \<le> 0.1 * b" if "0 \<le> b" for b :: real
    using that assms(2,3) by (simp add: mult_left_le)
  have bound: "d \<le> max_delay config" if "calculate_delay u attempt config = Inr d" for d
    using that calculate_delay_eq [OF assms(1), of u config] by (auto simp: Let_def)
  have vals: "calculate_delay u 1 config = Inr 1 \<and> calculate_delay u 2 config = Inr 2 \<and>
              calculate_delay u 3 config = Inr 4"
    if "strategy config = EXPONENTIAL" "\<not> jitter config" "base_delay config = 1"
       "backoff_factor config = 2" "max_delay config = 60"
    using that by (simp add: calculate_delay_def float_pow_def Let_def)
  show ?thesis
    using calculate_delay_eq [OF assms(1), of u config] jit bound vals
    by (simp add: Let_def)
qed

theorem calculate_delay_jitter_then_clamp_witness:
  "(1::int) \<le> 7 \<and> (0::real) \<le> 1/2 \<and> (1/2::real) \<le> 1 \<and>
   calculate_delay (1/2) 7 new_RetryConfig = Inr 60 \<and>
   calculate_delay (1/2) 3 (new_RetryConfig\<lparr>jitter := False\<rparr>) = Inr 4 \<and>
   calculate_delay (1/2) 3 new_RetryConfig = Inr (42/10)"
  using calculate_delay_jitter_then_clamp [of 7 "1/2" new_RetryConfig]
    calculate_delay_jitter_then_clamp [of 3 "1/2" "new_RetryConfig\<lparr>jitter := False\<rparr>"]
    calculate_delay_jitter_then_clamp [of 3 "1/2" new_RetryConfig]
  by (simp add: new_RetryConfig_def Let_def)

section \<open>MetricsCollector: the per-minute window\<close>

text \<open>
  C7 as stated fails: seven requests are recorded in a window that started at time 0;
  the computation made at time 60 returns 0, not 7, and the total of the window is
  lost with the reset.
\<close>

theorem requests_per_minute_counterexample:
  "total_requests (fold (\<lambda>rt. record_request rt False) [1, 2, 3, 4, 5, 6, 7] (new_MetricsCollector 0)) = 7 \<and>
   fst (calculate_requests_per_minute 60
          (fold (\<lambda>rt. record_request rt False) [1, 2, 3, 4, 5, 6, 7] (new_MetricsCollector 0))) = 0 \<and>
   fst (requests_per_minute_as_specified 60
          (fold (\<lambda>rt. record_request rt False) [1, 2, 3, 4, 5, 6, 7] (new_MetricsCollector 0))) = 7"
  by (simp add: calculate_requests_per_minute_def requests_per_minute_as_specified_def
      record_request_def new_MetricsCollector_def deque_append_def Let_def)

lemma record_request_total [simp]:
  "total_requests (record_request rt err m) = total_requests m + 1"
  by (simp add: record_request_def Let_def)

lemma record_request_errors [simp]:
  "error_count (record_request rt err m) = error_count m + (if err then 1 else 0)"
  by (simp add: record_request_def Let_def)

lemma record_request_last_reset [simp]:
  "last_reset (record_request rt err m) = last_reset m"
  by (simp add: record_request_def Let_def)

lemma record_requests_total:
  "total_requests (fold (\<lambda>(rt, err). record_request rt err) reqs m) =
     total_requests m + int (length reqs)"
  by (induction reqs arbitrary: m) (auto simp: case_prod_beta)

lemma record_requests_last_reset:
  "last_reset (fold (\<lambda>(rt, err). record_request rt err) reqs m) = last_reset m"
  by (induction reqs arbitrary: m) (auto simp: case_prod_beta)

text \<open>
  C7 (amended). The counters form a tumbling window. A computation made less than 60
  seconds after the last reset reports the running total and changes nothing. The
  first computation made 60 seconds or more after the last reset zeroes both counters,
  sets the reset time to now and reports 0: the total of the window that ends is
  discarded. The requests recorded after it are counted in the new window.
\<close>

theorem requests_per_minute_tumbling_window:
  "(now - last_reset m < 60 \<longrightarrow>
      calculate_requests_per_minute now m = (of_int (total_requests m), m)) \<and>
   (now - last_reset m \<ge> 60 \<longrightarrow>
      calculate_requests_per_minute now m =
        (0, m\<lparr>total_requests := 0, error_count := 0, last_reset := now\<rparr>) \<and>
      (later - now < 60 \<longrightarrow>
         fst (calculate_requests_per_minute later
                (fold (\<lambda>(rt, err). record_request rt err) reqs
                   (snd (calculate_requests_per_minute now m)))) = of_int (int (length reqs)))) \<and>
   total_requests (record_request rt err m) = total_requests m + 1 \<and>
   error_count (record_request rt err m) = error_count m + (if err then 1 else 0)"
  by (simp add: calculate_requests_per_minute_def record_requests_total
      record_requests_last_reset)

theorem requests_per_minute_tumbling_window_witness:
  "(59 :: real) - last_reset (fold (\<lambda>rt. record_request rt False) [1, 2, 3] (new_MetricsCollector 0)) < 60 \<and>
   fst (calculate_requests_per_minute 59
          (fold (\<lambda>rt. record_request rt False) [1, 2, 3] (new_MetricsCollector 0))) = 3 \<and>
   (60 :: real) - last_reset (fold (\<lambda>rt. record_request rt False) [1, 2, 3] (new_MetricsCollector 0)) \<ge> 60 \<and>
   fst (calculate_requests_per_minute 60
          (fold (\<lambda>rt. record_request rt False) [1, 2, 3] (new_MetricsCollector 0))) = 0 \<and>
   (100 :: real) - 60 < 60 \<and>
   fst (calculate_requests_per_minute 100
          (fold (\<lambda>(rt, err). record_request rt err) [(1, False), (2, True)]
             (snd (calculate_requests_per_minute 60
                (fold (\<lambda>rt. record_request rt False) [1, 2, 3] (new_MetricsCollector 0)))))) = 2"
  using requests_per_minute_tumbling_window
      [of 59 "fold (\<lambda>rt. record_request rt False) [1, 2, 3] (new_MetricsCollector 0)"]
    requests_per_minute_tumbling_window
      [of 60 "fold (\<lambda>rt. record_request rt False) [1, 2, 3] (new_MetricsCollector 0)"
          100 "[(1, False), (2, True)]"]
  by (simp add: new_MetricsCollector_def calculate_requests_per_minute_def)

section \<open>CacheManager: expired entries\<close>

lemma map_of_cache_set:
  "map_of (snd (cache_set key v expire t0 mc)) key =
     Some \<lparr>entry_value = v, expires_at = t0 + of_int (expire_or_3600 expire)\<rparr>"
  by (simp add: cache_set_def update_conv')

lemma filter_update_distinct:
  "distinct (map fst mc) \<Longrightarrow>
   length (filter P (AList.update k e mc)) =
     length (filter P (AList.delete k mc)) + (if P (k, e) then 1 else 0)"
proof (induction mc)
  case Nil
  then show ?case by simp
next
  case (Cons p ps)
  show ?case
  proof (cases "fst p = k")
    case True
    with Cons.prems have "k \<notin> fst ` set ps" by auto
    then have "AList.delete k ps = ps" by simp
    with True show ?thesis by simp
  next
    case False
    with Cons show ?thesis by simp
  qed
qed

lemma cache_get_live:
  "cache_get k t m = (Some v', m') \<Longrightarrow>
   \<exists>e. map_of m k = Some e \<and> entry_value e = v' \<and> expires_at e > t \<and> m' = m"
  by (auto simp: cache_get_def split: option.splits if_splits)

lemma cache_exists_live:
  "fst (cache_exists k t m) = Some True \<Longrightarrow> \<exists>e. map_of m k = Some e \<and> expires_at e > t"
  by (auto simp: cache_exists_def split: option.splits)

text \<open>The keys of the cache stay distinct under every method.\<close>

lemma memory_cache_keys_distinct:
  assumes "distinct (map fst mc)"
  shows "distinct (map fst (snd (cache_set key v expire now mc)))"
    and "distinct (map fst (snd (cache_get key now mc)))"
    and "distinct (map fst (snd (cache_delete key mc)))"
    and "distinct (map fst (snd (cache_exists key now mc)))"
    and "distinct (map fst (snd (cache_expire key seconds now mc)))"
    and "distinct (map fst (snd (clear_pattern pattern mc)))"
  using assms
  by (auto simp: cache_set_def cache_get_def cache_delete_def cache_exists_def cache_expire_def
      clear_pattern_eq distinct_update distinct_delete distinct_map_filter
      split: option.splits)

text \<open>
  C5 as stated fails twice. \<open>exists\<close> on an expired entry returns False and leaves the
  entry in the cache: after \<open>set("k", "v", 1)\<close> at time 0, \<open>exists("k")\<close> at time 2
  leaves one key stored. And a ttl of 0 is replaced by 3600: after
  \<open>set("k", "v", 0)\<close> at time 0, \<open>get("k")\<close> at time 1 returns the value.
\<close>

theorem expired_entry_counterexample:
  "cache_exists ''k'' 2 (snd (cache_set ''k'' ''v'' (Some 1) 0 [])) =
     (Some False, [(''k'', \<lparr>entry_value = ''v'', expires_at = 1\<rparr>)]) \<and>
   total_keys (get_stats 2 (snd (cache_exists ''k'' 2 (snd (cache_set ''k'' ''v'' (Some 1) 0 []))))) = 1 \<and>
   cache_get ''k'' 1 (snd (cache_set ''k'' ''v'' (Some 0) 0 [])) =
     (Some ''v'', [(''k'', \<lparr>entry_value = ''v'', expires_at = 3600\<rparr>)])"
  by (simp add: cache_exists_def cache_set_def cache_get_def get_stats_def expire_or_3600_def)


lemma cache_set_ttl:
  "ttl \<noteq> 0 \<Longrightarrow> snd (cache_set key v (Some ttl) t0 mc) =
     AList.update key \<lparr>entry_value = v, expires_at = t0 + of_int ttl\<rparr> mc"
  by (simp add: cache_set_def expire_or_3600_def)

lemma cache_get_expired:
  "map_of m key = Some e \<Longrightarrow> \<not> expires_at e > now \<Longrightarrow>
   cache_get key now m = (None, AList.delete key m)"
  by (simp add: cache_get_def)

lemma cache_exists_expired:
  "map_of m key = Some e \<Longrightarrow> \<not> expires_at e > now \<Longrightarrow>
   cache_exists key now m = (Some False, m)"
  by (simp add: cache_exists_def)

lemma active_keys_update_expired:
  assumes "distinct (map fst mc)" and "\<not> expires_at e > now"
  shows "active_keys (get_stats now (AList.update key e mc)) =
         active_keys (get_stats now (AList.delete key mc))"
  using filter_update_distinct [OF assms(1), of "\<lambda>(k, v). expires_at v > now" key e] assms(2)
  by (simp add: get_stats_def)

lemma total_keys_update:
  assumes "distinct (map fst mc)"
  shows "total_keys (get_stats now (AList.update key e mc)) =
         total_keys (get_stats now (AList.delete key mc)) + 1"
  using filter_update_distinct [OF assms(1), of "\<lambda>p. True" key e]
  by (simp add: get_stats_def)

text \<open>
  C5 (amended). After \<open>set(key, value, ttl)\<close> with a ttl other than 0, once more than
  \<open>ttl\<close> seconds have elapsed, \<open>get(key)\<close> returns absent and evicts the entry;
  \<open>exists(key)\<close> returns False and leaves the entry in the cache; the active-key count
  of \<open>get_stats\<close> excludes the entry, which the total count still includes until a
  \<open>get\<close> evicts it. \<open>get\<close> and \<open>exists\<close> never return a value whose \<open>expires_at\<close>
  has passed.
\<close>

theorem expired_entry_absent_evicted_by_get:
  assumes "distinct (map fst mc)" and "ttl \<noteq> 0" and "now - t0 > of_int ttl"
  shows "(let mc1 = snd (cache_set key v (Some ttl) t0 mc) in
            cache_get key now mc1 = (None, AList.delete key mc) \<and>
            cache_exists key now mc1 = (Some False, mc1) \<and>
            map_of mc1 key = Some \<lparr>entry_value = v, expires_at = t0 + of_int ttl\<rparr> \<and>
            active_keys (get_stats now mc1) = active_keys (get_stats now (AList.delete key mc)) \<and>
            total_keys (get_stats now mc1) = total_keys (get_stats now (AList.delete key mc)) + 1) \<and>
         (\<forall>k t (m :: 'a memory_cache) v' m'.
            cache_get k t m = (Some v', m') \<longrightarrow>
              (\<exists>e. map_of m k = Some e \<and> entry_value e = v' \<and> expires_at e > t)) \<and>
         (\<forall>k t (m :: 'a memory_cache).
            fst (cache_exists k t m) = Some True \<longrightarrow>
              (\<exists>e. map_of m k = Some e \<and> expires_at e > t))"
proof (intro conjI)
  define e where "e = \<lparr>entry_value = v, expires_at = t0 + of_int ttl\<rparr>"
  define mc1 where "mc1 = snd (cache_set key v (Some ttl) t0 mc)"
  have upd: "mc1 = AList.update key e mc"
    unfolding mc1_def e_def using assms(2) by (rule cache_set_ttl)
  have look: "map_of mc1 key = Some e"
    unfolding upd by (simp add: update_conv')
  have dead: "\<not> expires_at e > now"
    unfolding e_def using assms(3) by simp
  have "cache_get key now mc1 = (None, AList.delete key mc1)"
    using look dead by (rule cache_get_expired)
  then have g: "cache_get key now mc1 = (None, AList.delete key mc)"
    unfolding upd by (simp only: delete_update_same)
  have x: "cache_exists key now mc1 = (Some False, mc1)"
    using look dead by (rule cache_exists_expired)
  have a: "active_keys (get_stats now mc1) = active_keys (get_stats now (AList.delete key mc))"
    unfolding upd using assms(1) dead by (rule active_keys_update_expired)
  have n: "total_keys (get_stats now mc1) = total_keys (get_stats now (AList.delete key mc)) + 1"
    unfolding upd using assms(1) by (rule total_keys_update)
  show "let mc1 = snd (cache_set key v (Some ttl) t0 mc) in
            cache_get key now mc1 = (None, AList.delete key mc) \<and>
            cache_exists key now mc1 = (Some False, mc1) \<and>
            map_of mc1 key = Some \<lparr>entry_value = v, expires_at = t0 + of_int ttl\<rparr> \<and>
            active_keys (get_stats now mc1) = active_keys (get_stats now (AList.delete key mc)) \<and>
            total_keys (get_stats now mc1) = total_keys (get_stats now (AList.delete key mc)) + 1"
    unfolding Let_def mc1_def [symmetric] e_def [symmetric]
    using g x look a n by (intro conjI)
next
  show "\<forall>k t (m :: 'a memory_cache) v' m'.
            cache_get k t m = (Some v', m') \<longrightarrow>
              (\<exists>e. map_of m k = Some e \<and> entry_value e = v' \<and> expires_at e > t)"
  proof (intro allI impI)
    fix k t and m m' :: "'a memory_cache" and v'
    assume "cache_get k t m = (Some v', m')"
    from cache_get_live [OF this]
    obtain e0 where "map_of m k = Some e0" "entry_value e0 = v'" "expires_at e0 > t"
      by (elim exE conjE)
    then show "\<exists>e. map_of m k = Some e \<and> entry_value e = v' \<and> expires_at e > t"
      by (intro exI [of _ e0] conjI)
  qed
next
  show "\<forall>k t (m :: 'a memory_cache).
            fst (cache_exists k t m) = Some True \<longrightarrow>
              (\<exists>e. map_of m k = Some e \<and> expires_at e > t)"
  proof (intro allI impI)
    fix k t and m :: "'a memory_cache"
    assume "fst (cache_exists k t m) = Some True"
    then show "\<exists>e. map_of m k = Some e \<and> expires_at e > t"
      by (rule cache_exists_live)
  qed
qed

theorem expired_entry_absent_evicted_by_get_witness:
  "distinct (map fst ([] :: string memory_cache)) \<and> (1 :: int) \<noteq> 0 \<and> (2 :: real) - 0 > of_int 1 \<and>
   cache_get ''k'' 2 (snd (cache_set ''k'' ''v'' (Some 1) 0 [])) = (None, []) \<and>
   cache_exists ''k'' 2 (snd (cache_set ''k'' ''v'' (Some 1) 0 [])) =
     (Some False, snd (cache_set ''k'' ''v'' (Some 1) 0 [])) \<and>
   active_keys (get_stats 2 (snd (cache_set ''k'' ''v'' (Some 1) 0 []))) = 0 \<and>
   total_keys (get_stats 2 (snd (cache_set ''k'' ''v'' (Some 1) 0 []))) = 1"
proof -
  have h: "distinct (map fst ([] :: string memory_cache))" "(1 :: int) \<noteq> 0"
    "(2 :: real) - 0 > of_int 1"
    by simp_all
  note w = expired_entry_absent_evicted_by_get [OF h, of "''k''" "''v''", THEN conjunct1]
  show ?thesis
    using h w by (simp add: Let_def get_stats_def cache_set_def expire_or_3600_def)
qed

text \<open>
  C10. \<open>expire\<close> on a key that is still stored but whose \<open>expires_at\<close> has passed does
  not treat the entry as absent, as \<open>get\<close> and \<open>exists\<close> do at that moment: it gives
  the entry the new \<open>expires_at = now + seconds\<close> and returns True, and until that time
  \<open>get\<close> returns the stale value again.
\<close>

theorem expire_resurrects_expired_entry:
  assumes "map_of mc key = Some e" and "expires_at e \<le> now"
    and "now \<le> t" and "t < now + of_int seconds"
  shows "fst (cache_get key now mc) = None \<and>
         fst (cache_exists key now mc) = Some False \<and>
         cache_expire key seconds now mc =
           (True, AList.update key (e\<lparr>expires_at := now + of_int seconds\<rparr>) mc) \<and>
         cache_get key t (snd (cache_expire key seconds now mc)) =
           (Some (entry_value e), snd (cache_expire key seconds now mc))"
  using assms
  by (simp add: cache_get_def cache_exists_def cache_expire_def update_conv')

theorem expire_resurrects_expired_entry_witness:
  "map_of [(''k'', \<lparr>entry_value = ''v'', expires_at = 1\<rparr>)] ''k'' =
     Some \<lparr>entry_value = ''v'', expires_at = 1\<rparr> \<and>
   expires_at \<lparr>entry_value = ''v'', expires_at = 1\<rparr> \<le> 5 \<and> (5 :: real) \<le> 6 \<and>
   (6 :: real) < 5 + of_int 10 \<and>
   fst (cache_get ''k'' 5 [(''k'', \<lparr>entry_value = ''v'', expires_at = 1\<rparr>)]) = None \<and>
   cache_expire ''k'' 10 5 [(''k'', \<lparr>entry_value = ''v'', expires_at = 1\<rparr>)] =
     (True, [(''k'', \<lparr>entry_value = ''v'', expires_at = 15\<rparr>)]) \<and>
   fst (cache_get ''k'' 6
          (snd (cache_expire ''k'' 10 5 [(''k'', \<lparr>entry_value = ''v'', expires_at = 1\<rparr>)]))) =
     Some ''v''"
  using expire_resurrects_expired_entry
    [of "[(''k'', \<lparr>entry_value = ''v'', expires_at = 1\<rparr>)]" "''k''"
        "\<lparr>entry_value = ''v'', expires_at = 1\<rparr>" 5 6 10]
  by (simp add: cache_get_def)

section \<open>HealthChecker: one record per check\<close>

lemma update_new_key: "k \<notin> fst ` set al \<Longrightarrow> AList.update k v al = al @ [(k, v)]"
  by (induction al) auto

lemma run_checks_results:
  "distinct (map fst cs) \<Longrightarrow> fst ` set cs \<inter> fst ` set results = {} \<Longrightarrow>
   fst (run_checks utcnow cs results hs lg w) = results @ expected_records utcnow cs w"
proof (induction cs arbitrary: results hs lg w)
  case Nil
  then show ?case by simp
next
  case (Cons c cs)
  obtain nm f where c: "c = (nm, f)" by (cases c)
  obtain out w' where f: "f w = (out, w')" by (cases "f w")
  have new: "nm \<notin> fst ` set results" using Cons.prems(2) c by auto
  have d: "distinct (map fst cs)" using Cons.prems(1) by simp
  have disj: "fst ` set cs \<inter> fst ` set (results @ [(nm, r)]) = {}" for r
    using Cons.prems c by auto
  show ?case
  proof (cases out)
    case (Inl e)
    then show ?thesis
      using Cons.IH [OF d disj] c f new
      by (simp add: update_new_key check_record_def)
  next
    case (Inr r)
    then show ?thesis
      using Cons.IH [OF d disj] c f new
      by (simp add: update_new_key check_record_def)
  qed
qed

lemma run_checks_world:
  "snd (snd (snd (run_checks utcnow cs results hs lg w))) = fold (\<lambda>(nm, f) w. snd (f w)) cs w"
proof (induction cs arbitrary: results hs lg w)
  case Nil
  then show ?case by simp
next
  case (Cons c cs)
  obtain nm f where c: "c = (nm, f)" by (cases c)
  obtain out w' where f: "f w = (out, w')" by (cases "f w")
  show ?case
    using Cons.IH c f by (cases out) simp_all
qed

lemma expected_records_keys: "map fst (expected_records utcnow cs w) = map fst cs"
  by (induction cs arbitrary: w) (auto simp: case_prod_beta)

lemma expected_records_length: "length (expected_records utcnow cs w) = length cs"
  using expected_records_keys [of utcnow cs w] by (metis length_map)

lemma expected_records_nth:
  "i < length cs \<Longrightarrow>
   expected_records utcnow cs w ! i =
     (fst (cs ! i),
      check_record utcnow (fst (cs ! i))
        (snd (cs ! i) (fold (\<lambda>(nm, f) w. snd (f w)) (take i cs) w)))"
proof (induction cs arbitrary: i w)
  case Nil
  then show ?case by simp
next
  case (Cons c cs)
  obtain nm f where c: "c = (nm, f)" by (cases c)
  show ?case
  proof (cases i)
    case 0
    then show ?thesis using c by simp
  next
    case (Suc j)
    then have "j < length cs" using Cons.prems by simp
    from Cons.IH [OF this] show ?thesis using c Suc by simp
  qed
qed

lemma register_health_check_distinct:
  "distinct (map fst (health_checks hc)) \<Longrightarrow>
   distinct (map fst (health_checks (register_health_check nm f hc)))"
  by (simp add: register_health_check_def distinct_update)

text \<open>
  C8. \<open>run_all_checks\<close> returns exactly one record per registered check, in
  registration order. Every check is run, on the machine left by the checks before it,
  whether or not those raised; the record of a check that returns is what it returned,
  and the record of a check that raises is the unhealthy record whose \<open>error_message\<close>
  is \<open>str(e)\<close>. No exception of a check leaves \<open>run_all_checks\<close>.
\<close>

theorem run_all_checks_one_record_per_check:
  assumes "distinct (map fst (health_checks hc))"
  shows "(case run_all_checks utcnow hc w of (results, hc', lg, w') \<Rightarrow>
           map fst results = map fst (health_checks hc) \<and>
           health_checks hc' = health_checks hc \<and>
           w' = fold (\<lambda>(nm, f) w. snd (f w)) (health_checks hc) w \<and>
           (\<forall>i < length (health_checks hc).
              results ! i =
                (fst (health_checks hc ! i),
                 check_record utcnow (fst (health_checks hc ! i))
                   (snd (health_checks hc ! i)
                      (fold (\<lambda>(nm, f) w. snd (f w)) (take i (health_checks hc)) w))))) \<and>
         (\<forall>nm e w1. check_record utcnow nm (Inl e, w1) =
            (\<lparr>name = nm, status = ''unhealthy'', response_time = 0, last_check = utcnow w1,
              error_message = Some (exc_str e), details = None\<rparr> :: 'd ServiceHealth)) \<and>
         (\<forall>nm (r :: 'd ServiceHealth) w1. check_record utcnow nm (Inr r, w1) = r)"
proof -
  let ?cs = "health_checks hc"
  let ?run = "run_checks utcnow ?cs [] (health_status hc) [] w"
  have res: "fst ?run = expected_records utcnow ?cs w"
    using run_checks_results [OF assms, of "[]" utcnow "health_status hc" "[]" w] by simp
  have world: "snd (snd (snd ?run)) = fold (\<lambda>(nm, f) w. snd (f w)) ?cs w"
    by (rule run_checks_world)
  have shape: "run_all_checks utcnow hc w =
      (fst ?run, hc\<lparr>health_status := fst (snd ?run)\<rparr>, fst (snd (snd ?run)), snd (snd (snd ?run)))"
    by (simp add: run_all_checks_def case_prod_beta)
  show ?thesis
    unfolding shape res world
    by (simp add: expected_records_keys expected_records_nth check_record_def)
qed

theorem run_all_checks_one_record_per_check_witness:
  "distinct (map fst
     [(''database'', \<lambda>w :: nat. (Inr \<lparr>name = ''database'', status = ''healthy'', response_time = 1,
          last_check = real w, error_message = None, details = None :: unit option\<rparr>, Suc w)),
      (''cache'', \<lambda>w. (Inl (Exn ''ConnectionError'' ''cache is down''), Suc w)),
      (''memory'', \<lambda>w. (Inr \<lparr>name = ''memory'', status = ''degraded'', response_time = 2,
          last_check = real w, error_message = None, details = None\<rparr>, Suc w))]) \<and>
   run_all_checks real
     \<lparr>health_checks =
        [(''database'', \<lambda>w :: nat. (Inr \<lparr>name = ''database'', status = ''healthy'', response_time = 1,
             last_check = real w, error_message = None, details = None :: unit option\<rparr>, Suc w)),
         (''cache'', \<lambda>w. (Inl (Exn ''ConnectionError'' ''cache is down''), Suc w)),
         (''memory'', \<lambda>w. (Inr \<lparr>name = ''memory'', status = ''degraded'', response_time = 2,
             last_check = real w, error_message = None, details = None\<rparr>, Suc w))],
      health_status = []\<rparr> 0 =
     ([(''database'', \<lparr>name = ''database'', status = ''healthy'', response_time = 1,
          last_check = 0, error_message = None, details = None\<rparr>),
       (''cache'', \<lparr>name = ''cache'', status = ''unhealthy'', response_time = 0,
          last_check = 2, error_message = Some ''cache is down'', details = None\<rparr>),
       (''memory'', \<lparr>name = ''memory'', status = ''degraded'', response_time = 2,
          last_check = 2, error_message = None, details = None\<rparr>)],
      \<lparr>health_checks =
        [(''database'', \<lambda>w :: nat. (Inr \<lparr>name = ''database'', status = ''healthy'', response_time = 1,
             last_check = real w, error_message = None, details = None :: unit option\<rparr>, Suc w)),
         (''cache'', \<lambda>w. (Inl (Exn ''ConnectionError'' ''cache is down''), Suc w)),
         (''memory'', \<lambda>w. (Inr \<lparr>name = ''memory'', status = ''degraded'', response_time = 2,
             last_check = real w, error_message = None, details = None\<rparr>, Suc w))],
       health_status =
        [(''database'', \<lparr>name = ''database'', status = ''healthy'', response_time = 1,
            last_check = 0, error_message = None, details = None\<rparr>),
         (''memory'', \<lparr>name = ''memory'', status = ''degraded'', response_time = 2,
            last_check = 2, error_message = None, details = None\<rparr>)]\<rparr>,
      [(''ERROR'', ''Health check cache failed: cache is down'')],
      3)"
  using run_all_checks_one_record_per_check [where utcnow = real and w = 0 and hc =
     "\<lparr>health_checks =
        [(''database'', \<lambda>w :: nat. (Inr \<lparr>name = ''database'', status = ''healthy'', response_time = 1,
             last_check = real w, error_message = None, details = None :: unit option\<rparr>, Suc w)),
         (''cache'', \<lambda>w. (Inl (Exn ''ConnectionError'' ''cache is down''), Suc w)),
         (''memory'', \<lambda>w. (Inr \<lparr>name = ''memory'', status = ''degraded'', response_time = 2,
             last_check = real w, error_message = None, details = None\<rparr>, Suc w))],
      health_status = []\<rparr>"]
  by (simp add: run_all_checks_def)

section \<open>AlertManager: dispatch to the handlers\<close>

lemma call_handlers_world:
  "snd (call_handlers hs alert history lg w) = fold (\<lambda>h w. snd (h alert history w)) hs w"
proof (induction hs arbitrary: lg w)
  case Nil
  then show ?case by simp
next
  case (Cons h hs)
  obtain out w' where h: "h alert history w = (out, w')" by (cases "h alert history w")
  show ?case using Cons.IH h by (cases out) simp_all
qed

lemma call_handlers_log: "\<exists>extra. fst (call_handlers hs alert history lg w) = lg @ extra"
proof (induction hs arbitrary: lg w)
  case Nil
  then show ?case by simp
next
  case (Cons h hs)
  obtain out w' where h: "h alert history w = (out, w')" by (cases "h alert history w")
  show ?case
  proof (cases out)
    case None
    then show ?thesis using Cons.IH [of lg w'] h by simp
  next
    case (Some e)
    obtain extra where
      "fst (call_handlers hs alert history
              (lg @ [(''ERROR'', ''Alert handler failed: '' @ exc_str e)]) w') =
         (lg @ [(''ERROR'', ''Alert handler failed: '' @ exc_str e)]) @ extra"
      using Cons.IH
        [of "lg @ [(''ERROR'', ''Alert handler failed: '' @ exc_str e)]" w']
      by (elim exE)
    then show ?thesis using Some h by simp
  qed
qed

lemma call_handlers_error_logged:
  "i < length hs \<Longrightarrow>
   fst ((hs ! i) alert history (fold (\<lambda>h w. snd (h alert history w)) (take i hs) w)) = Some e \<Longrightarrow>
   (''ERROR'', ''Alert handler failed: '' @ exc_str e) \<in> set (fst (call_handlers hs alert history lg w))"
proof (induction hs arbitrary: i lg w)
  case Nil
  then show ?case by simp
next
  case (Cons h hs)
  obtain out w' where h: "h alert history w = (out, w')" by (cases "h alert history w")
  show ?case
  proof (cases i)
    case 0
    with Cons.prems h have out: "out = Some e" by simp
    obtain extra where
      "fst (call_handlers hs alert history
              (lg @ [(''ERROR'', ''Alert handler failed: '' @ exc_str e)]) w') =
         (lg @ [(''ERROR'', ''Alert handler failed: '' @ exc_str e)]) @ extra"
      using call_handlers_log
        [of hs alert history "lg @ [(''ERROR'', ''Alert handler failed: '' @ exc_str e)]" w']
      by (elim exE)
    then show ?thesis using out h by simp
  next
    case (Suc j)
    then have j: "j < length hs" using Cons.prems(1) by simp
    have run: "fst ((hs ! j) alert history
                 (fold (\<lambda>h w. snd (h alert history w)) (take j hs) w')) = Some e"
      using Cons.prems(2) Suc h by simp
    show ?thesis
      using Cons.IH [OF j run] h by (cases out) simp_all
  qed
qed

lemma evaluate_condition_Num: "\<exists>b. evaluate_condition v opr (Num t) = Inr b"
  by (cases "opr = ''>''"; cases "opr = ''<''"; cases "opr = ''>=''"; cases "opr = ''<=''";
      cases "opr = ''==''"; cases "opr = ''!=''") (auto simp: evaluate_condition_def)

lemma metric_alerts_total:
  "\<forall>(nm, r) \<in> set rules.
      metric r \<in> set [''cpu_usage'', ''memory_usage'', ''disk_usage'', ''error_rate''] \<longrightarrow>
      (\<exists>t. threshold r = Num t) \<Longrightarrow>
   \<exists>found. metric_alerts now utc metrics rules = Inr found"
proof (induction rules)
  case Nil
  then show ?case by simp
next
  case (Cons p rules)
  obtain nm r where p: "p = (nm, r)" by (cases p)
  from Cons obtain found where rest: "metric_alerts now utc metrics rules = Inr found"
    by auto
  show ?case
  proof (cases "metric r \<in> set [''cpu_usage'', ''memory_usage'', ''disk_usage'', ''error_rate'']")
    case True
    with Cons.prems p obtain t where t: "threshold r = Num t" by auto
    obtain b where "evaluate_condition (getattr_metric metrics (metric r)) (operator r) (Num t) = Inr b"
      using evaluate_condition_Num by blast
    then show ?thesis using True p rest t by (cases b) (simp_all add: Let_def)
  next
    case False
    then show ?thesis using p rest by simp
  qed
qed

lemma fold_process_alert:
  "fold process_alert as (am, lg, w) = (am', lg', w') \<Longrightarrow>
   alerts am' = alerts am @ as \<and> alert_handlers am' = alert_handlers am \<and>
   alert_rules am' = alert_rules am \<and>
   w' = fst (fold (\<lambda>a (w, history).
                 (fold (\<lambda>h w. snd (h a (history @ [a]) w)) (alert_handlers am) w, history @ [a]))
              as (w, alerts am))"
proof (induction as arbitrary: am lg w)
  case Nil
  then show ?case by simp
next
  case (Cons a as)
  obtain am1 lg1 w1 where step: "process_alert a (am, lg, w) = (am1, lg1, w1)"
    by (cases "process_alert a (am, lg, w)")
  then have 1: "alerts am1 = alerts am @ [a]" "alert_handlers am1 = alert_handlers am"
    "alert_rules am1 = alert_rules am"
    "w1 = fold (\<lambda>h w. snd (h a (alerts am @ [a]) w)) (alert_handlers am) w"
    using call_handlers_world [of "alert_handlers am" a "alerts am @ [a]" lg w]
    by (auto simp: process_alert_def Let_def case_prod_beta)
  from Cons.prems step have "fold process_alert as (am1, lg1, w1) = (am', lg', w')" by simp
  from Cons.IH [OF this] show ?case using 1 by simp
qed

text \<open>
  C9. \<open>_process_alert\<close> appends the alert to the history and then calls every
  registered handler on it, in registration order: each handler runs on the machine
  left by the handlers before it, whether or not those raised, and with the alert
  already in the history. An exception of a handler is logged as an error and goes no
  further. \<open>check_alerts\<close>, whose rules for the scalar metrics have float thresholds
  (as the default rules have), returns normally whatever the handlers do, with every
  alert it raised in the history.
\<close>

theorem alert_handlers_all_called:
  "(case process_alert alert (am, lg, w) of (am', lg', w') \<Rightarrow>
      alerts am' = alerts am @ [alert] \<and>
      alert_handlers am' = alert_handlers am \<and>
      w' = fold (\<lambda>h w. snd (h alert (alerts am @ [alert]) w)) (alert_handlers am) w \<and>
      (\<forall>i < length (alert_handlers am). \<forall>e.
          fst ((alert_handlers am ! i) alert (alerts am @ [alert])
                 (fold (\<lambda>h w. snd (h alert (alerts am @ [alert]) w))
                    (take i (alert_handlers am)) w)) = Some e \<longrightarrow>
          (''ERROR'', ''Alert handler failed: '' @ exc_str e) \<in> set lg')) \<and>
   ((\<forall>(nm, r) \<in> set (alert_rules am).
        metric r \<in> set [''cpu_usage'', ''memory_usage'', ''disk_usage'', ''error_rate''] \<longrightarrow>
        (\<exists>t. threshold r = Num t)) \<longrightarrow>
    (\<exists>am' lg' w' found.
        check_alerts now utc metrics hs am w = Inr (am', lg', w') \<and>
        metric_alerts now utc metrics (alert_rules am) = Inr found \<and>
        alerts am' = alerts am @ found @ health_alerts now utc hs \<and>
        alert_handlers am' = alert_handlers am \<and>
        w' = fst (fold (\<lambda>a (w, history).
                      (fold (\<lambda>h w. snd (h a (history @ [a]) w)) (alert_handlers am) w,
                       history @ [a]))
                   (found @ health_alerts now utc hs) (w, alerts am))))"
proof (intro conjI impI)
  let ?hist = "alerts am @ [alert]"
  let ?run = "call_handlers (alert_handlers am) alert ?hist lg w"
  have shape: "process_alert alert (am, lg, w) =
      (am\<lparr>alerts := ?hist\<rparr>,
       fst ?run @ [(''WARNING'', ''Alert triggered: '' @ alert_message alert @
                       '' (Severity: '' @ alert_severity alert @ '')'')],
       snd ?run)"
    by (simp add: process_alert_def Let_def case_prod_beta)
  have logged: "(''ERROR'', ''Alert handler failed: '' @ exc_str e) \<in> set (fst ?run)"
    if "i < length (alert_handlers am)"
      and "fst ((alert_handlers am ! i) alert ?hist
                 (fold (\<lambda>h w. snd (h alert ?hist w)) (take i (alert_handlers am)) w)) = Some e"
    for i e
    using that by (rule call_handlers_error_logged)
  show "case process_alert alert (am, lg, w) of (am', lg', w') \<Rightarrow>
      alerts am' = alerts am @ [alert] \<and>
      alert_handlers am' = alert_handlers am \<and>
      w' = fold (\<lambda>h w. snd (h alert (alerts am @ [alert]) w)) (alert_handlers am) w \<and>
      (\<forall>i < length (alert_handlers am). \<forall>e.
          fst ((alert_handlers am ! i) alert (alerts am @ [alert])
                 (fold (\<lambda>h w. snd (h alert (alerts am @ [alert]) w))
                    (take i (alert_handlers am)) w)) = Some e \<longrightarrow>
          (''ERROR'', ''Alert handler failed: '' @ exc_str e) \<in> set lg')"
    unfolding shape using logged by (simp add: call_handlers_world)
next
  assume rules: "\<forall>(nm, r) \<in> set (alert_rules am).
        metric r \<in> set [''cpu_usage'', ''memory_usage'', ''disk_usage'', ''error_rate''] \<longrightarrow>
        (\<exists>t. threshold r = Num t)"
  from metric_alerts_total [OF this, of now utc metrics]
  obtain found where found: "metric_alerts now utc metrics (alert_rules am) = Inr found"
    by (elim exE)
  obtain am' lg' w' where run:
    "fold process_alert (found @ health_alerts now utc hs) (am, [], w) = (am', lg', w')"
    by (cases "fold process_alert (found @ health_alerts now utc hs) (am, [], w)")
  have call: "check_alerts now utc metrics hs am w = Inr (am', lg', w')"
    using found run by (simp add: check_alerts_def)
  from fold_process_alert [OF run] call found
  show "\<exists>am' lg' w' found.
        check_alerts now utc metrics hs am w = Inr (am', lg', w') \<and>
        metric_alerts now utc metrics (alert_rules am) = Inr found \<and>
        alerts am' = alerts am @ found @ health_alerts now utc hs \<and>
        alert_handlers am' = alert_handlers am \<and>
        w' = fst (fold (\<lambda>a (w, history).
                      (fold (\<lambda>h w. snd (h a (history @ [a]) w)) (alert_handlers am) w,
                       history @ [a]))
                   (found @ health_alerts now utc hs) (w, alerts am))"
    by (intro exI [of _ am'] exI [of _ lg'] exI [of _ w'] exI [of _ found]) simp
qed

theorem alert_handlers_all_called_witness:
  "(case check_alerts 100 100
           \<lparr>timestamp = 100, cpu_usage = 95, memory_usage = 40, disk_usage = 50, network_io = [],
            active_connections = 3, requests_per_minute = 12, error_rate = 0,
            response_time_avg = 1, cache_hit_rate = 0\<rparr>
           ([] :: (string \<times> unit ServiceHealth) list)
           \<lparr>alerts = [], alert_rules = default_rules,
            alert_handlers =
              [\<lambda>a history w. (Some (Exn ''RuntimeError'' ''pager down''), w @ [''pager:'' @ alert_id a]),
               \<lambda>a history w. (None, w @ [''mail:'' @ alert_id a @
                  (if alert_id a \<in> set (map alert_id history) then '':in history'' else '':missing'')])]\<rparr>
           [] of
      Inl e \<Rightarrow> False
    | Inr (am', lg', w') \<Rightarrow>
        map alert_id (alerts am') = [''high_cpu_100''] \<and>
        lg' = [(''ERROR'', ''Alert handler failed: pager down''),
               (''WARNING'', ''Alert triggered: CPU usage is above 90% (Severity: warning)'')] \<and>
        w' = [''pager:high_cpu_100'', ''mail:high_cpu_100:in history''])"
  using alert_handlers_all_called [where now = 100 and utc = 100 and w = "[]" and lg = "[]"
      and hs = "[] :: (string \<times> unit ServiceHealth) list"
      and metrics = "\<lparr>timestamp = 100, cpu_usage = 95, memory_usage = 40, disk_usage = 50,
            network_io = [], active_connections = 3, requests_per_minute = 12, error_rate = 0,
            response_time_avg = 1, cache_hit_rate = 0\<rparr>"
      and am = "\<lparr>alerts = [], alert_rules = default_rules,
            alert_handlers =
              [\<lambda>a history w. (Some (Exn ''RuntimeError'' ''pager down''), w @ [''pager:'' @ alert_id a]),
               \<lambda>a history w. (None, w @ [''mail:'' @ alert_id a @
                  (if alert_id a \<in> set (map alert_id history) then '':in history'' else '':missing'')])]\<rparr>"]
  by (simp add: check_alerts_def default_rules_def evaluate_condition_def getattr_metric_def
      health_alerts_def process_alert_def str_int_def int_of_float_def Let_def)

section \<open>The retry wrapper\<close>

lemma calculate_delay_total: "1 \<le> a \<Longrightarrow> \<exists>delay. calculate_delay u a config = Inr delay"
  using calculate_delay_eq [of a u config] by (simp add: Let_def)

lemma attempt_loop_invoked:
  "attempt_loop d env config as le cb = (r, cb', invoked, slept) \<Longrightarrow>
   length invoked \<le> length as"
proof (induction as arbitrary: le cb r cb' invoked slept)
  case Nil
  then show ?case by simp
next
  case (Cons a as)
  show ?case
  proof (cases "func env a")
    case (Inr v)
    with Cons.prems show ?thesis by auto
  next
    case (Inl e)
    show ?thesis
    proof (cases "exceptions d e \<and> a \<le> max_retries config")
      case False
      with Cons.prems Inl show ?thesis by (auto simp: Let_def split: if_splits)
    next
      case True
      show ?thesis
      proof (cases "calculate_delay (random_draw env a) a config")
        case (Inl e')
        with Cons.prems \<open>func env a = Inl e\<close> True show ?thesis by (auto simp: Let_def)
      next
        case (Inr delay)
        obtain r2 cb2 inv2 sl2 where rest:
          "attempt_loop d env config as (Some e) (on_failure (time_at_failure env a) cb) =
             (r2, cb2, inv2, sl2)"
          by (metis prod_cases4)
        from Cons.IH [OF rest] Cons.prems \<open>func env a = Inl e\<close> True Inr rest
        show ?thesis by (auto simp: Let_def)
      qed
    qed
  qed
qed

lemma attempt_loop_failures:
  assumes "\<forall>j \<in> set pre. \<exists>e. func env j = Inl e \<and> exceptions d e"
    and "\<forall>j \<in> set pre. 1 \<le> j \<and> j \<le> max_retries config"
  shows "\<exists>le' delays. length delays = length pre \<and>
           attempt_loop d env config (pre @ rest) le cb =
             (case attempt_loop d env config rest le'
                     (fold on_failure (map (time_at_failure env) pre) cb) of
                (r, cb2, iv, sl) \<Rightarrow> (r, cb2, pre @ iv, delays @ sl))"
  using assms
proof (induction pre arbitrary: le cb)
  case Nil
  show ?case by (intro exI [of _ le] exI [of _ "[]"]) (simp add: case_prod_beta)
next
  case (Cons j pre)
  from Cons.prems obtain e where e: "func env j = Inl e" "exceptions d e" by auto
  from Cons.prems have j: "1 \<le> j" "j \<le> max_retries config" by auto
  obtain delay where delay: "calculate_delay (random_draw env j) j config = Inr delay"
    using calculate_delay_total [OF j(1)] by blast
  let ?cb1 = "on_failure (time_at_failure env j) cb"
  from Cons.prems have
    "\<forall>j \<in> set pre. \<exists>e. func env j = Inl e \<and> exceptions d e"
    "\<forall>j \<in> set pre. 1 \<le> j \<and> j \<le> max_retries config"
    by auto
  from Cons.IH [OF this, of "Some e" ?cb1]
  obtain le' delays where ih: "length delays = length pre"
    "attempt_loop d env config (pre @ rest) (Some e) ?cb1 =
       (case attempt_loop d env config rest le'
               (fold on_failure (map (time_at_failure env) pre) ?cb1) of
          (r, cb2, iv, sl) \<Rightarrow> (r, cb2, pre @ iv, delays @ sl))"
    by (elim exE conjE)
  show ?case
    by (intro exI [of _ le'] exI [of _ "delay # delays"])
       (simp add: e j delay ih Let_def case_prod_beta)
qed

lemma attempt_loop_success:
  "func env k = Inr v \<Longrightarrow>
   attempt_loop d env config (k # post) le cb = (Inr v, on_success cb, [k], [])"
  by simp

lemma attempt_loop_last_failure:
  "func env m = Inl e \<Longrightarrow> exceptions d e \<Longrightarrow> \<not> m \<le> max_retries config \<Longrightarrow>
   attempt_loop d env config [m] le cb = (Inl e, on_failure (time_at_failure env m) cb, [m], [])"
  by (simp add: Let_def)

lemma attempt_loop_uncaught:
  "func env k = Inl e \<Longrightarrow> \<not> exceptions d e \<Longrightarrow>
   attempt_loop d env config (k # post) le cb = (Inl e, cb, [k], [])"
  by simp

lemma attempt_loop_succeeds_at:
  assumes "1 \<le> k" and "k \<le> max_retries config + 1"
    and "\<forall>j \<in> {1..<k}. \<exists>e. func env j = Inl e \<and> exceptions d e"
    and "func env k = Inr v"
  shows "\<exists>slept. length slept = nat (k - 1) \<and>
           attempt_loop d env config [1 .. max_retries config + 1] le cb =
             (Inr v, on_success (fold on_failure (map (time_at_failure env) [1 .. k - 1]) cb),
              [1 .. k], slept)"
proof -
  have split: "[1 .. max_retries config + 1] = [1 .. k - 1] @ k # [k + 1 .. max_retries config + 1]"
    using assms(1,2) by (rule upto_split3)
  have fails: "\<forall>j \<in> set [1 .. k - 1]. \<exists>e. func env j = Inl e \<and> exceptions d e"
    using assms(3) by auto
  have range: "\<forall>j \<in> set [1 .. k - 1]. 1 \<le> j \<and> j \<le> max_retries config"
    using assms(2) by auto
  from attempt_loop_failures [OF fails range, of "k # [k + 1 .. max_retries config + 1]" le cb]
  obtain le' delays where pre: "length delays = length [1 .. k - 1]"
    "attempt_loop d env config ([1 .. k - 1] @ k # [k + 1 .. max_retries config + 1]) le cb =
       (case attempt_loop d env config (k # [k + 1 .. max_retries config + 1]) le'
               (fold on_failure (map (time_at_failure env) [1 .. k - 1]) cb) of
          (r, cb2, iv, sl) \<Rightarrow> (r, cb2, [1 .. k - 1] @ iv, delays @ sl))"
    by (elim exE conjE)
  have upto: "[1 .. k - 1] @ [k] = [1 .. k]"
    using assms(1) upto_rec2 [of 1 k] by simp
  show ?thesis
    by (intro exI [of _ delays])
       (simp add: split pre attempt_loop_success [OF assms(4)] upto del: attempt_loop.simps)
qed

lemma attempt_loop_exhausted:
  assumes "0 \<le> max_retries config"
    and "\<forall>j \<in> {1 .. max_retries config + 1}. \<exists>e. func env j = Inl e \<and> exceptions d e"
  shows "\<exists>slept. length slept = nat (max_retries config) \<and>
           attempt_loop d env config [1 .. max_retries config + 1] le cb =
             (func env (max_retries config + 1),
              fold on_failure (map (time_at_failure env) [1 .. max_retries config + 1]) cb,
              [1 .. max_retries config + 1], slept)"
proof -
  let ?n = "max_retries config"
  have split: "[1 .. ?n + 1] = [1 .. ?n] @ [?n + 1]"
    using assms(1) upto_rec2 [of 1 "?n + 1"] by simp
  have fails: "\<forall>j \<in> set [1 .. ?n]. \<exists>e. func env j = Inl e \<and> exceptions d e"
    using assms(2) by auto
  have range: "\<forall>j \<in> set [1 .. ?n]. 1 \<le> j \<and> j \<le> ?n"
    by auto
  have "?n + 1 \<in> {1 .. ?n + 1}" using assms(1) by simp
  with assms(2) have "\<exists>e. func env (?n + 1) = Inl e \<and> exceptions d e" by (rule bspec)
  then obtain e where e: "func env (?n + 1) = Inl e" "exceptions d e"
    by (elim exE conjE)
  from attempt_loop_failures [OF fails range, of "[?n + 1]" le cb]
  obtain le' delays where pre: "length delays = length [1 .. ?n]"
    "attempt_loop d env config ([1 .. ?n] @ [?n + 1]) le cb =
       (case attempt_loop d env config [?n + 1] le'
               (fold on_failure (map (time_at_failure env) [1 .. ?n]) cb) of
          (r, cb2, iv, sl) \<Rightarrow> (r, cb2, [1 .. ?n] @ iv, delays @ sl))"
    by (elim exE conjE)
  have last: "attempt_loop d env config [?n + 1] le'
               (fold on_failure (map (time_at_failure env) [1 .. ?n]) cb) =
        (Inl e, on_failure (time_at_failure env (?n + 1))
                  (fold on_failure (map (time_at_failure env) [1 .. ?n]) cb), [?n + 1], [])"
    using e by (intro attempt_loop_last_failure) simp_all
  show ?thesis
    using assms(1)
    by (intro exI [of _ delays]) (simp add: split pre last e del: attempt_loop.simps)
qed

lemma get_retry_config_after_breaker:
  "fst (get_retry_config nm (snd (get_circuit_breaker nm rm))) = fst (get_retry_config nm rm)"
  by (simp add: get_retry_config_def get_circuit_breaker_def split: option.splits)

lemma async_wrapper_cases:
  "\<exists>rm3. async_wrapper d env rm =
     (case can_execute (time_at_entry env) (fst (get_circuit_breaker (service_name d) rm)) of
        Inl e \<Rightarrow> (Inl e, rm3, [], [])
      | Inr (ok, cb1) \<Rightarrow>
          if \<not> ok
          then (Inl (CircuitOpen (service_name d)),
                rm3\<lparr>circuit_breakers := AList.update (service_name d) cb1 (circuit_breakers rm3)\<rparr>,
                [], [])
          else (case attempt_loop d env
                       (apply_overrides d (fst (get_retry_config (service_name d) rm)))
                       [1 .. max_retries (apply_overrides d (fst (get_retry_config (service_name d) rm))) + 1]
                       None cb1 of
                  (r, cb2, invoked, slept) \<Rightarrow>
                    (r, rm3\<lparr>circuit_breakers :=
                              AList.update (service_name d) cb2 (circuit_breakers rm3)\<rparr>,
                     invoked, slept)))"
  unfolding async_wrapper_def Let_def case_prod_beta get_retry_config_after_breaker
  by (rule exI) (rule refl)

text \<open>
  C3. The wrapper, for a policy with \<open>max_retries = n \<ge> 0\<close>, invokes the function at
  most \<open>n + 1\<close> times. If \<open>can_execute\<close> returns False at entry it raises the
  circuit-open exception and invokes nothing. If the attempts before the \<open>k\<close>-th fail
  (with an exception that \<open>except exceptions\<close> catches) and the \<open>k\<close>-th returns, the
  wrapper returns that result after \<open>k\<close> invocations and \<open>k - 1\<close> sleeps, and the
  breaker has seen one \<open>on_failure\<close> per failed attempt and then \<open>on_success\<close>. If all
  \<open>n + 1\<close> attempts fail, the wrapper raises the exception of the last attempt as it
  is, after \<open>n + 1\<close> invocations, \<open>n\<close> sleeps and one \<open>on_failure\<close> per attempt.
\<close>

theorem retry_wrapper_bounded_attempts:
  assumes "cb0 = fst (get_circuit_breaker (service_name d) rm)"
    and "config = apply_overrides d (fst (get_retry_config (service_name d) rm))"
    and "0 \<le> max_retries config"
  shows "(case async_wrapper d env rm of (r, rm', invoked, slept) \<Rightarrow>
     length invoked \<le> nat (max_retries config + 1) \<and>
     (\<forall>cb1. can_execute (time_at_entry env) cb0 = Inr (False, cb1) \<longrightarrow>
        r = Inl (CircuitOpen (service_name d)) \<and> invoked = [] \<and> slept = [] \<and>
        map_of (circuit_breakers rm') (service_name d) = Some cb1) \<and>
     (\<forall>cb1 k v. can_execute (time_at_entry env) cb0 = Inr (True, cb1) \<and>
        1 \<le> k \<and> k \<le> max_retries config + 1 \<and>
        (\<forall>j \<in> {1..<k}. \<exists>e. func env j = Inl e \<and> exceptions d e) \<and>
        func env k = Inr v \<longrightarrow>
        r = Inr v \<and> invoked = [1 .. k] \<and> length slept = nat (k - 1) \<and>
        map_of (circuit_breakers rm') (service_name d) =
          Some (on_success (fold on_failure (map (time_at_failure env) [1 .. k - 1]) cb1))) \<and>
     (\<forall>cb1. can_execute (time_at_entry env) cb0 = Inr (True, cb1) \<and>
        (\<forall>j \<in> {1 .. max_retries config + 1}. \<exists>e. func env j = Inl e \<and> exceptions d e) \<longrightarrow>
        r = func env (max_retries config + 1) \<and> invoked = [1 .. max_retries config + 1] \<and>
        length slept = nat (max_retries config) \<and>
        map_of (circuit_breakers rm') (service_name d) =
          Some (fold on_failure (map (time_at_failure env) [1 .. max_retries config + 1]) cb1)))"
proof -
  let ?nm = "service_name d"
  let ?n = "max_retries config"
  obtain rm3 where W: "async_wrapper d env rm =
     (case can_execute (time_at_entry env) cb0 of
        Inl e \<Rightarrow> (Inl e, rm3, [], [])
      | Inr (ok, cb1) \<Rightarrow>
          if \<not> ok
          then (Inl (CircuitOpen ?nm),
                rm3\<lparr>circuit_breakers := AList.update ?nm cb1 (circuit_breakers rm3)\<rparr>, [], [])
          else (case attempt_loop d env config [1 .. ?n + 1] None cb1 of
                  (r, cb2, invoked, slept) \<Rightarrow>
                    (r, rm3\<lparr>circuit_breakers := AList.update ?nm cb2 (circuit_breakers rm3)\<rparr>,
                     invoked, slept)))"
    unfolding assms(1,2) using async_wrapper_cases [of d env rm] by (elim exE)
  obtain r rm' invoked slept where res: "async_wrapper d env rm = (r, rm', invoked, slept)"
    by (metis prod_cases4)
  have A: "length invoked \<le> nat (?n + 1)"
  proof (cases "can_execute (time_at_entry env) cb0")
    case (Inl e)
    with W res show ?thesis by simp
  next
    case (Inr p)
    obtain ok cb1 where p: "p = (ok, cb1)" by (cases p)
    show ?thesis
    proof (cases ok)
      case False
      with W res Inr p show ?thesis by simp
    next
      case True
      obtain r2 cb2 iv sl where loop:
        "attempt_loop d env config [1 .. ?n + 1] None cb1 = (r2, cb2, iv, sl)"
        by (metis prod_cases4)
      from attempt_loop_invoked [OF loop] have "length iv \<le> nat (?n + 1)" by simp
      moreover from W res Inr p True loop have "invoked = iv" by simp
      ultimately show ?thesis by simp
    qed
  qed
  have B: "r = Inl (CircuitOpen ?nm) \<and> invoked = [] \<and> slept = [] \<and>
           map_of (circuit_breakers rm') ?nm = Some cb1"
    if "can_execute (time_at_entry env) cb0 = Inr (False, cb1)" for cb1
    using W res that by (auto simp: update_conv')
  have C: "r = Inr v \<and> invoked = [1 .. k] \<and> length slept = nat (k - 1) \<and>
        map_of (circuit_breakers rm') ?nm =
          Some (on_success (fold on_failure (map (time_at_failure env) [1 .. k - 1]) cb1))"
    if "can_execute (time_at_entry env) cb0 = Inr (True, cb1)" and "1 \<le> k" and "k \<le> ?n + 1"
      and "\<forall>j \<in> {1..<k}. \<exists>e. func env j = Inl e \<and> exceptions d e" and "func env k = Inr v"
    for cb1 k v
  proof -
    from attempt_loop_succeeds_at [OF that(2-5), of None cb1]
    obtain sl where sl: "length sl = nat (k - 1)"
      "attempt_loop d env config [1 .. ?n + 1] None cb1 =
         (Inr v, on_success (fold on_failure (map (time_at_failure env) [1 .. k - 1]) cb1),
          [1 .. k], sl)"
      by (elim exE conjE)
    from W res that(1) sl show ?thesis by (auto simp: update_conv')
  qed
  have D: "r = func env (?n + 1) \<and> invoked = [1 .. ?n + 1] \<and> length slept = nat ?n \<and>
        map_of (circuit_breakers rm') ?nm =
          Some (fold on_failure (map (time_at_failure env) [1 .. ?n + 1]) cb1)"
    if "can_execute (time_at_entry env) cb0 = Inr (True, cb1)"
      and "\<forall>j \<in> {1 .. ?n + 1}. \<exists>e. func env j = Inl e \<and> exceptions d e"
    for cb1
  proof -
    from attempt_loop_exhausted [OF assms(3) that(2), of None cb1]
    obtain sl where sl: "length sl = nat ?n"
      "attempt_loop d env config [1 .. ?n + 1] None cb1 =
         (func env (?n + 1), fold on_failure (map (time_at_failure env) [1 .. ?n + 1]) cb1,
          [1 .. ?n + 1], sl)"
      by (elim exE conjE)
    from W res that(1) sl show ?thesis by (auto simp: update_conv')
  qed
  have B': "\<forall>cb1. can_execute (time_at_entry env) cb0 = Inr (False, cb1) \<longrightarrow>
        r = Inl (CircuitOpen ?nm) \<and> invoked = [] \<and> slept = [] \<and>
        map_of (circuit_breakers rm') ?nm = Some cb1"
    by (intro allI impI) (rule B)
  have C': "\<forall>cb1 k v. can_execute (time_at_entry env) cb0 = Inr (True, cb1) \<and>
        1 \<le> k \<and> k \<le> ?n + 1 \<and>
        (\<forall>j \<in> {1..<k}. \<exists>e. func env j = Inl e \<and> exceptions d e) \<and>
        func env k = Inr v \<longrightarrow>
        r = Inr v \<and> invoked = [1 .. k] \<and> length slept = nat (k - 1) \<and>
        map_of (circuit_breakers rm') ?nm =
          Some (on_success (fold on_failure (map (time_at_failure env) [1 .. k - 1]) cb1))"
    by (intro allI impI, elim conjE) (rule C; assumption)
  have D': "\<forall>cb1. can_execute (time_at_entry env) cb0 = Inr (True, cb1) \<and>
        (\<forall>j \<in> {1 .. ?n + 1}. \<exists>e. func env j = Inl e \<and> exceptions d e) \<longrightarrow>
        r = func env (?n + 1) \<and> invoked = [1 .. ?n + 1] \<and> length slept = nat ?n \<and>
        map_of (circuit_breakers rm') ?nm =
          Some (fold on_failure (map (time_at_failure env) [1 .. ?n + 1]) cb1)"
    by (intro allI impI, elim conjE) (rule D; assumption)
  show ?thesis
    unfolding res prod.case using A B' C' D' by (intro conjI)
qed

theorem retry_wrapper_bounded_attempts_witness:
  "0 \<le> max_retries (apply_overrides retry_ai_service
           (fst (get_retry_config (service_name retry_ai_service) new_RetryManager))) \<and>
   (case async_wrapper retry_ai_service
           \<lparr>func = (\<lambda>k. if k < 3 then Inl (Exn ''TimeoutError'' ''model is slow'') else Inr ''answer''),
            time_at_entry = 0, time_at_failure = (\<lambda>k. of_int k), random_draw = (\<lambda>k. 0)\<rparr>
           new_RetryManager of
      (r, rm', invoked, slept) \<Rightarrow>
        r = Inr ''answer'' \<and> invoked = [1, 2, 3] \<and> length slept = 2 \<and>
        map_of (circuit_breakers rm') ''ai_service'' =
          Some \<lparr>failure_threshold = 5, recovery_timeout = 60, state = CLOSED,
                failure_count = 2, last_failure_time = Some 2, success_count = 0\<rparr>) \<and>
   (case async_wrapper retry_ai_service
           \<lparr>func = (\<lambda>k. if k < 4 then Inl (Exn ''TimeoutError'' ''model is slow'')
                          else (Inl (Exn ''ValueError'' ''last failure'') :: exn + string)),
            time_at_entry = 0, time_at_failure = (\<lambda>k. of_int k), random_draw = (\<lambda>k. 0)\<rparr>
           new_RetryManager of
      (r, rm', invoked, slept) \<Rightarrow>
        r = Inl (Exn ''ValueError'' ''last failure'') \<and> invoked = [1, 2, 3, 4] \<and>
        length slept = 3 \<and>
        map_of (circuit_breakers rm') ''ai_service'' =
          Some \<lparr>failure_threshold = 5, recovery_timeout = 60, state = CLOSED,
                failure_count = 4, last_failure_time = Some 4, success_count = 0\<rparr>)"
proof -
  let ?env1 = "\<lparr>func = (\<lambda>k. if k < 3 then Inl (Exn ''TimeoutError'' ''model is slow'') else Inr ''answer''),
            time_at_entry = 0, time_at_failure = (\<lambda>k. of_int k), random_draw = (\<lambda>k. 0)\<rparr>"
  let ?env2 = "\<lparr>func = (\<lambda>k. if k < 4 then Inl (Exn ''TimeoutError'' ''model is slow'')
                          else (Inl (Exn ''ValueError'' ''last failure'') :: exn + string)),
            time_at_entry = 0, time_at_failure = (\<lambda>k. of_int k), random_draw = (\<lambda>k. 0)\<rparr>"
  let ?cfg = "\<lparr>max_retries = 3, base_delay = 1, max_delay = 60, strategy = EXPONENTIAL,
               jitter = True, backoff_factor = 2\<rparr>"
  have nm: "service_name retry_ai_service = ''ai_service''"
    and ex: "exceptions retry_ai_service = (\<lambda>e. True)"
    by (simp_all add: retry_ai_service_def)
  have cb: "new_CircuitBreaker =
        fst (get_circuit_breaker (service_name retry_ai_service) new_RetryManager)"
    by (simp add: get_circuit_breaker_def new_RetryManager_def)
  have cfg: "?cfg = apply_overrides retry_ai_service
        (fst (get_retry_config (service_name retry_ai_service) new_RetryManager))"
    by (simp add: get_retry_config_def new_RetryManager_def apply_overrides_def
        retry_ai_service_def new_RetryConfig_def)
  have n: "0 \<le> max_retries ?cfg" by simp
  have ce: "can_execute 0 new_CircuitBreaker = Inr (True, new_CircuitBreaker)"
    by (simp add: can_execute_def new_CircuitBreaker_def)
  have u2: "[1 .. 2 :: int] = [1, 2]" and u3: "[1 .. 3 :: int] = [1, 2, 3]"
    and u4: "[1 .. 4 :: int] = [1, 2, 3, 4]"
    by code_simp+
  obtain r1 rm1 inv1 sl1 where
    res1: "async_wrapper retry_ai_service ?env1 new_RetryManager = (r1, rm1, inv1, sl1)"
    by (metis prod_cases4)
  obtain r2 rm2 inv2 sl2 where
    res2: "async_wrapper retry_ai_service ?env2 new_RetryManager = (r2, rm2, inv2, sl2)"
    by (metis prod_cases4)
  note t1 = retry_wrapper_bounded_attempts [OF cb cfg n, of ?env1, unfolded res1 prod.case]
  note t2 = retry_wrapper_bounded_attempts [OF cb cfg n, of ?env2, unfolded res2 prod.case]
  note s1 = t1 [THEN conjunct2, THEN conjunct2, THEN conjunct1, rule_format,
      of new_CircuitBreaker 3 "''answer''"]
  note s2 = t2 [THEN conjunct2, THEN conjunct2, THEN conjunct2, rule_format,
      of new_CircuitBreaker]
  have p1: "can_execute (time_at_entry ?env1) new_CircuitBreaker = Inr (True, new_CircuitBreaker) \<and>
        (1 :: int) \<le> 3 \<and> 3 \<le> max_retries ?cfg + 1 \<and>
        (\<forall>j \<in> {1..<3}. \<exists>e. func ?env1 j = Inl e \<and> exceptions retry_ai_service e) \<and>
        func ?env1 3 = Inr ''answer''"
    by (simp add: ce ex)
  have p2: "can_execute (time_at_entry ?env2) new_CircuitBreaker = Inr (True, new_CircuitBreaker) \<and>
        (\<forall>j \<in> {1 .. max_retries ?cfg + 1}. \<exists>e. func ?env2 j = Inl e \<and> exceptions retry_ai_service e)"
    by (simp add: ce ex)
  have b1: "on_success (fold on_failure (map (time_at_failure ?env1) [1 .. 3 - 1]) new_CircuitBreaker) =
        \<lparr>failure_threshold = 5, recovery_timeout = 60, state = CLOSED,
         failure_count = 2, last_failure_time = Some 2, success_count = 0\<rparr>"
    by (simp add: u2 on_failure_def on_success_def new_CircuitBreaker_def Let_def)
  have b2: "fold on_failure (map (time_at_failure ?env2) [1 .. max_retries ?cfg + 1]) new_CircuitBreaker =
        \<lparr>failure_threshold = 5, recovery_timeout = 60, state = CLOSED,
         failure_count = 4, last_failure_time = Some 4, success_count = 0\<rparr>"
    by (simp add: u4 on_failure_def new_CircuitBreaker_def Let_def)
  have a1: "r1 = Inr ''answer'' \<and> inv1 = [1, 2, 3] \<and> length sl1 = 2 \<and>
        map_of (circuit_breakers rm1) ''ai_service'' =
          Some \<lparr>failure_threshold = 5, recovery_timeout = 60, state = CLOSED,
                failure_count = 2, last_failure_time = Some 2, success_count = 0\<rparr>"
    using s1 [OF p1] unfolding b1 nm u3 by simp
  have a2: "r2 = Inl (Exn ''ValueError'' ''last failure'') \<and> inv2 = [1, 2, 3, 4] \<and>
        length sl2 = 3 \<and>
        map_of (circuit_breakers rm2) ''ai_service'' =
          Some \<lparr>failure_threshold = 5, recovery_timeout = 60, state = CLOSED,
                failure_count = 4, last_failure_time = Some 4, success_count = 0\<rparr>"
    using s2 [OF p2] unfolding b2 nm by (simp add: u4)
  have n': "0 \<le> max_retries (apply_overrides retry_ai_service
           (fst (get_retry_config (service_name retry_ai_service) new_RetryManager)))"
    using n unfolding cfg .
  show ?thesis
    unfolding res1 res2 prod.case using n' a1 a2 by (intro conjI) (elim conjE, assumption)+
qed

section \<open>CircuitBreaker: failures are counted cumulatively\<close>

lemma outcomes_snoc:
  "outcomes (evs @ [x]) cb =
     (case x of None \<Rightarrow> on_success (outcomes evs cb) | Some t \<Rightarrow> on_failure t (outcomes evs cb))"
  by (cases x) (simp_all add: outcomes_def)

lemma failure_times_snoc:
  "failure_times (evs @ [x]) = failure_times evs @ (case x of None \<Rightarrow> [] | Some t \<Rightarrow> [t])"
  by (simp add: failure_times_def)

lemma outcomes_calls:
  "breaker_calls (map (case_option OnSuccess OnFailure) evs) cb = Inr ([], outcomes evs cb)"
proof (induction evs arbitrary: cb)
  case Nil
  then show ?case by (simp add: outcomes_def)
next
  case (Cons x evs)
  then show ?case by (cases x) (simp_all add: outcomes_def)
qed

lemma outcomes_closed:
  assumes "state cb = CLOSED"
  shows "failure_threshold (outcomes evs cb) = failure_threshold cb \<and>
         recovery_timeout (outcomes evs cb) = recovery_timeout cb \<and>
         failure_count (outcomes evs cb) = failure_count cb + int (length (failure_times evs)) \<and>
         (failure_times evs \<noteq> [] \<longrightarrow>
            last_failure_time (outcomes evs cb) = Some (last (failure_times evs))) \<and>
         state (outcomes evs cb) =
           (if failure_times evs \<noteq> [] \<and>
               failure_threshold cb \<le> failure_count cb + int (length (failure_times evs))
            then OPEN else CLOSED)"
proof (induction evs rule: rev_induct)
  case Nil
  show ?case using assms by (simp add: outcomes_def failure_times_def)
next
  case (snoc x evs)
  let ?b = "outcomes evs cb"
  show ?case
  proof (cases x)
    case None
    have "state ?b \<noteq> HALF_OPEN" using snoc by (simp split: if_splits)
    then have "on_success ?b = ?b" by (rule on_success_elsewhere)
    then show ?thesis using snoc None by (simp add: outcomes_snoc failure_times_snoc)
  next
    case (Some t)
    then show ?thesis
      using snoc by (auto simp: outcomes_snoc failure_times_snoc on_failure_state)
  qed
qed

text \<open>
  C1 as stated fails: the failures that open the breaker need not be consecutive, and
  the opening failure need not be the fifth consecutive one. \<open>on_success\<close> does nothing
  in CLOSED, so \<open>failure_count\<close> keeps the failures from before a success: a new
  breaker that sees one failure, a success and then failures is still CLOSED after the
  third failure in a row and OPEN after the fourth.
\<close>

theorem consecutive_failures_counterexample:
  "breaker_calls [OnFailure 1, OnSuccess, OnFailure 2, OnFailure 3, OnFailure 4]
     new_CircuitBreaker =
   Inr ([], \<lparr>failure_threshold = 5, recovery_timeout = 60, state = CLOSED,
             failure_count = 4, last_failure_time = Some 4, success_count = 0\<rparr>) \<and>
   breaker_calls [OnFailure 1, OnSuccess, OnFailure 2, OnFailure 3, OnFailure 4, OnFailure 5]
     new_CircuitBreaker =
   Inr ([], \<lparr>failure_threshold = 5, recovery_timeout = 60, state = OPEN,
             failure_count = 5, last_failure_time = Some 5, success_count = 0\<rparr>)"
  by (simp add: new_CircuitBreaker_def on_failure_def on_success_def Let_def)

text \<open>
  C1 (amended). Each \<open>on_failure\<close> adds one to \<open>failure_count\<close> and stores its time in
  \<open>last_failure_time\<close>. For a breaker in state CLOSED the failures are counted
  cumulatively, whatever successes come in between: after any sequence of successes
  and failures, \<open>failure_count\<close> has grown by the number of failures, and the breaker
  is OPEN exactly when a failure has brought \<open>failure_count\<close> to the threshold. With
  threshold 5 and \<open>failure_count = 0\<close> that is the fifth failure, consecutive or not.
  While OPEN, every \<open>can_execute\<close> called no later than \<open>recovery_timeout\<close> after the
  last failure returns False and changes nothing, and the first call later than that
  returns True and puts the breaker in HALF_OPEN.
\<close>

theorem circuit_breaker_opens_at_threshold:
  assumes "state cb = CLOSED"
  shows "failure_count (on_failure now b) = failure_count b + 1 \<and>
         last_failure_time (on_failure now b) = Some now \<and>
         failure_count (outcomes evs cb) = failure_count cb + int (length (failure_times evs)) \<and>
         (failure_times evs \<noteq> [] \<longrightarrow>
            last_failure_time (outcomes evs cb) = Some (last (failure_times evs))) \<and>
         state (outcomes evs cb) =
           (if failure_times evs \<noteq> [] \<and>
               failure_threshold cb \<le> failure_count cb + int (length (failure_times evs))
            then OPEN else CLOSED) \<and>
         (failure_threshold cb = 5 \<and> failure_count cb = 0 \<longrightarrow>
            (state (outcomes evs cb) = OPEN \<longleftrightarrow> 5 \<le> length (failure_times evs))) \<and>
         (state (outcomes evs cb) = OPEN \<and>
          (\<forall>t \<in> set early. t - last (failure_times evs) \<le> recovery_timeout cb) \<and>
          late - last (failure_times evs) > recovery_timeout cb \<longrightarrow>
            breaker_calls (map CanExecute early @ [CanExecute late]) (outcomes evs cb) =
              Inr (replicate (length early) False @ [True],
                   (outcomes evs cb)\<lparr>state := HALF_OPEN\<rparr>))"
proof -
  let ?b = "outcomes evs cb"
  let ?ts = "failure_times evs"
  note inv = outcomes_closed [OF assms, of evs]
  have cnt: "failure_count ?b = failure_count cb + int (length ?ts)"
    and tm: "?ts \<noteq> [] \<longrightarrow> last_failure_time ?b = Some (last ?ts)"
    and st: "state ?b = (if ?ts \<noteq> [] \<and> failure_threshold cb \<le> failure_count cb + int (length ?ts)
                         then OPEN else CLOSED)"
    and rt: "recovery_timeout ?b = recovery_timeout cb"
    using inv by simp_all
  have five: "state ?b = OPEN \<longleftrightarrow> 5 \<le> length ?ts"
    if "failure_threshold cb = 5 \<and> failure_count cb = 0"
    using that st by auto
  have polls: "breaker_calls (map CanExecute early @ [CanExecute late]) ?b =
        Inr (replicate (length early) False @ [True], ?b\<lparr>state := HALF_OPEN\<rparr>)"
    if h: "state ?b = OPEN \<and> (\<forall>t \<in> set early. t - last ?ts \<le> recovery_timeout cb) \<and>
           late - last ?ts > recovery_timeout cb"
  proof -
    from h have opn: "state ?b = OPEN" by (rule conjunct1)
    with st have "?ts \<noteq> []" by (auto split: if_splits)
    with tm have lt: "last_failure_time ?b = Some (last ?ts)" by (rule mp)
    have early: "\<forall>t \<in> set early. t - last ?ts \<le> recovery_timeout ?b"
      using h rt by simp
    have late: "late - last ?ts > recovery_timeout ?b"
      using h rt by simp
    have "breaker_calls [CanExecute late] ?b = Inr ([True], ?b\<lparr>state := HALF_OPEN\<rparr>)"
      using can_execute_open_late [OF opn lt late] by simp
    then show ?thesis
      using breaker_calls_early [OF opn lt early, of "[CanExecute late]"] by simp
  qed
  show ?thesis
    using cnt tm st five polls by (intro conjI impI) simp_all
qed

theorem circuit_breaker_opens_at_threshold_witness:
  "state new_CircuitBreaker = CLOSED \<and>
   failure_times [Some 1, None, Some 2, Some 3, Some 4, Some 5] = [1, 2, 3, 4, 5] \<and>
   failure_threshold new_CircuitBreaker = 5 \<and> failure_count new_CircuitBreaker = 0 \<and>
   failure_count (outcomes [Some 1, None, Some 2, Some 3, Some 4, Some 5] new_CircuitBreaker) = 5 \<and>
   last_failure_time (outcomes [Some 1, None, Some 2, Some 3, Some 4, Some 5] new_CircuitBreaker) =
     Some 5 \<and>
   state (outcomes [Some 1, None, Some 2, Some 3, Some 4, Some 5] new_CircuitBreaker) = OPEN \<and>
   state (outcomes [Some 1, None, Some 2, Some 3, Some 4] new_CircuitBreaker) = CLOSED \<and>
   (6 :: real) - 5 \<le> recovery_timeout new_CircuitBreaker \<and>
   (65 :: real) - 5 \<le> recovery_timeout new_CircuitBreaker \<and>
   (66 :: real) - 5 > recovery_timeout new_CircuitBreaker \<and>
   breaker_calls (map CanExecute [6, 65] @ [CanExecute 66])
       (outcomes [Some 1, None, Some 2, Some 3, Some 4, Some 5] new_CircuitBreaker) =
     Inr ([False, False, True],
          (outcomes [Some 1, None, Some 2, Some 3, Some 4, Some 5] new_CircuitBreaker)
            \<lparr>state := HALF_OPEN\<rparr>)"
proof -
  have h: "state new_CircuitBreaker = CLOSED" by (simp add: new_CircuitBreaker_def)
  have f5: "failure_times [Some 1, None, Some 2, Some 3, Some 4, Some 5] = [1, 2, 3, 4, 5]"
    and f4: "failure_times [Some 1, None, Some 2, Some 3, Some 4] = [1, 2, 3, 4]"
    by (simp_all add: failure_times_def)
  have rep: "replicate (length [6, 65 :: real]) False @ [True] = [False, False, True]"
    by (simp add: numeral_2_eq_2)
  note t5 = circuit_breaker_opens_at_threshold
    [OF h, of _ _ "[Some 1, None, Some 2, Some 3, Some 4, Some 5]" "[6, 65]" 66, unfolded f5 rep]
  note t4 = circuit_breaker_opens_at_threshold
    [OF h, of _ _ "[Some 1, None, Some 2, Some 3, Some 4]" "[]" 0, unfolded f4]
  show ?thesis
    using h f5 t5 t4 by (simp add: new_CircuitBreaker_def)
qed

end
